theory Spec2Isabelle
  imports Main "HOL-Library.Word"
begin

text \<open>
  A model of the cryptographic core of the CipherChat client: the module crypto.js (key
  wrapping, hybrid message encryption, the key fingerprint), the module backup.js (the
  password-protected backup file), and the two callers login and sendMessage.

  The code is asynchronous JavaScript over the browser's Web Crypto API. Each function is
  modelled as a pure function: an exception is a value of the error type, the random source is an
  explicit argument that is returned advanced, and the primitives of the platform that the code
  only calls (PBKDF2, AES-GCM, RSA-OAEP, SHA-256, JSON, the conversion of a number to a string)
  and the number of arguments its engine accepts in one call are the fields of a record that
  every function takes as its first argument. The text codecs and base64, on which several claims
  turn, are modelled in full. Where two asynchronous calls run under Promise.all, each call is a
  sequence of steps, one for each await, and the order in which the steps of the two calls are
  taken is an argument.
\<close>

unbundle bit_operations_syntax

section \<open>Bytes, strings and errors\<close>

text \<open>
  A Uint8Array or ArrayBuffer is a list of bytes; a JavaScript string is a list of UTF-16 code
  units, which need not be well-formed Unicode. \<open>js\<close> turns an ASCII literal into such a string.
\<close>

type_synonym byte = "8 word"
type_synonym bytes = "byte list"
type_synonym code_unit = "16 word"
type_synonym jsstring = "code_unit list"

definition js :: "string \<Rightarrow> jsstring" where
  "js s = map of_char s"

text \<open>
  The exceptions the code can raise or pass on. The first six are the platform's: RangeError
  from a call with more arguments than the engine accepts, InvalidCharacterError from atob,
  OperationError and DataError from SubtleCrypto, TypeError from reading a property of null or
  undefined, SyntaxError from JSON.parse. The next three are the
  Error objects that decryptBackup throws, named after their messages ("Invalid backup file -
  could not parse JSON", "Invalid backup file - not a CipherChat backup", "Wrong backup password -
  could not decrypt"). HttpError is a rejected request of the API client, with the message of the
  server's response when there is one.
\<close>

datatype js_error =
    RangeError
  | InvalidCharacterError
  | OperationError
  | DataError
  | TypeError
  | SyntaxError
  | InvalidBackupJSON
  | NotACipherChatBackup
  | WrongBackupPassword
  | HttpError "jsstring option"

section \<open>TextEncoder and TextDecoder\<close>

text \<open>
  \<open>new TextEncoder().encode(s)\<close> converts the string to scalar values, an unpaired surrogate
  becoming U+FFFD, and writes each in UTF-8.
\<close>

definition is_high_surrogate :: "nat \<Rightarrow> bool" where
  "is_high_surrogate u \<longleftrightarrow> 0xD800 \<le> u \<and> u \<le> 0xDBFF"

definition is_low_surrogate :: "nat \<Rightarrow> bool" where
  "is_low_surrogate u \<longleftrightarrow> 0xDC00 \<le> u \<and> u \<le> 0xDFFF"

fun usv_scalars :: "jsstring \<Rightarrow> nat list" where
  "usv_scalars [] = []"
| "usv_scalars [u] =
     (if is_high_surrogate (unat u) \<or> is_low_surrogate (unat u) then [0xFFFD] else [unat u])"
| "usv_scalars (u # v # rest) =
     (if is_high_surrogate (unat u) then
        (if is_low_surrogate (unat v)
         then (0x10000 + (unat u - 0xD800) * 0x400 + (unat v - 0xDC00)) # usv_scalars rest
         else 0xFFFD # usv_scalars (v # rest))
      else if is_low_surrogate (unat u) then 0xFFFD # usv_scalars (v # rest)
      else unat u # usv_scalars (v # rest))"

text \<open>
  String.prototype.isWellFormed: no unpaired surrogate.
\<close>

fun isWellFormed :: "jsstring \<Rightarrow> bool" where
  "isWellFormed [] = True"
| "isWellFormed [u] = (\<not> is_high_surrogate (unat u) \<and> \<not> is_low_surrogate (unat u))"
| "isWellFormed (u # v # rest) =
     (if is_high_surrogate (unat u) then is_low_surrogate (unat v) \<and> isWellFormed rest
      else \<not> is_low_surrogate (unat u) \<and> isWellFormed (v # rest))"

definition utf8_bytes :: "nat \<Rightarrow> bytes" where
  "utf8_bytes cp =
     (if cp < 0x80 then [of_nat cp]
      else if cp < 0x800 then [of_nat (0xC0 + cp div 64), of_nat (0x80 + cp mod 64)]
      else if cp < 0x10000 then
        [of_nat (0xE0 + cp div 4096), of_nat (0x80 + cp div 64 mod 64), of_nat (0x80 + cp mod 64)]
      else
        [of_nat (0xF0 + cp div 262144), of_nat (0x80 + cp div 4096 mod 64),
         of_nat (0x80 + cp div 64 mod 64), of_nat (0x80 + cp mod 64)])"

definition TextEncoder_encode :: "jsstring \<Rightarrow> bytes" where
  "TextEncoder_encode s = concat (map utf8_bytes (usv_scalars s))"

text \<open>
  \<open>new TextDecoder().decode(bytes)\<close> is the UTF-8 decoder of the Encoding standard in its
  replacement mode: the state below, one step per byte, U+FFFD for every malformed sequence, the
  offending byte read again as a lead byte. The byte operations are written with div and mod:
  \<open>b mod 32\<close> is \<open>b & 0x1F\<close>, and \<open>cp * 64 + b mod 64\<close> is \<open>(cp << 6) | (b & 0x3F)\<close>.
\<close>

record utf8_decoder =
  code_point :: nat
  bytes_seen :: nat
  bytes_needed :: nat
  lower_boundary :: nat
  upper_boundary :: nat

definition utf8_reset :: utf8_decoder where
  "utf8_reset = \<lparr>code_point = 0, bytes_seen = 0, bytes_needed = 0,
                  lower_boundary = 0x80, upper_boundary = 0xBF\<rparr>"

definition utf8_lead :: "nat \<Rightarrow> nat list \<times> utf8_decoder" where
  "utf8_lead b =
     (if b \<le> 0x7F then ([b], utf8_reset)
      else if 0xC2 \<le> b \<and> b \<le> 0xDF then
        ([], utf8_reset\<lparr>bytes_needed := 1, code_point := b mod 32\<rparr>)
      else if 0xE0 \<le> b \<and> b \<le> 0xEF then
        ([], \<lparr>code_point = b mod 16, bytes_seen = 0, bytes_needed = 2,
              lower_boundary = (if b = 0xE0 then 0xA0 else 0x80),
              upper_boundary = (if b = 0xED then 0x9F else 0xBF)\<rparr>)
      else if 0xF0 \<le> b \<and> b \<le> 0xF4 then
        ([], \<lparr>code_point = b mod 8, bytes_seen = 0, bytes_needed = 3,
              lower_boundary = (if b = 0xF0 then 0x90 else 0x80),
              upper_boundary = (if b = 0xF4 then 0x8F else 0xBF)\<rparr>)
      else ([0xFFFD], utf8_reset))"

definition utf8_step :: "utf8_decoder \<Rightarrow> nat \<Rightarrow> nat list \<times> utf8_decoder" where
  "utf8_step d b =
     (if bytes_needed d = 0 then utf8_lead b
      else if b < lower_boundary d \<or> upper_boundary d < b then
        (case utf8_lead b of (out, d') \<Rightarrow> (0xFFFD # out, d'))
      else
        (let cp = code_point d * 64 + b mod 64; seen = bytes_seen d + 1
         in if seen \<noteq> bytes_needed d
            then ([], \<lparr>code_point = cp, bytes_seen = seen, bytes_needed = bytes_needed d,
                       lower_boundary = 0x80, upper_boundary = 0xBF\<rparr>)
            else ([cp], utf8_reset)))"

fun utf8_decode :: "utf8_decoder \<Rightarrow> bytes \<Rightarrow> nat list" where
  "utf8_decode d [] = (if bytes_needed d \<noteq> 0 then [0xFFFD] else [])"
| "utf8_decode d (b # bs) = (case utf8_step d (unat b) of (out, d') \<Rightarrow> out @ utf8_decode d' bs)"

text \<open>
  The decoded scalar values become code units again, after a leading U+FEFF has been removed:
  the decoder is made with the default options, so ignoreBOM is false.
\<close>

definition utf16_units :: "nat \<Rightarrow> jsstring" where
  "utf16_units cp =
     (if cp < 0x10000 then [of_nat cp]
      else [of_nat (0xD800 + (cp - 0x10000) div 0x400), of_nat (0xDC00 + (cp - 0x10000) mod 0x400)])"

definition strip_bom :: "nat list \<Rightarrow> nat list" where
  "strip_bom cps = (case cps of [] \<Rightarrow> [] | c # rest \<Rightarrow> if c = 0xFEFF then rest else cps)"

definition TextDecoder_decode :: "bytes \<Rightarrow> jsstring" where
  "TextDecoder_decode bs = concat (map utf16_units (strip_bom (utf8_decode utf8_reset bs)))"



section \<open>Base64\<close>

text \<open>
  The base64 text of a sequence of bytes, as btoa writes it: \<open>base64_of bytes\<close> is
  \<open>btoa(String.fromCharCode(b1, ..., bn))\<close>. The code units handed to btoa are bytes, so btoa
  cannot raise, and the model encodes the bytes directly. arrayToBase64, which also has to get
  the bytes into one call of String.fromCharCode, follows with the functions of crypto.js.
\<close>

definition b64_char :: "nat \<Rightarrow> code_unit" where
  "b64_char n =
     of_nat (if n < 26 then 65 + n else if n < 52 then 71 + n else if n < 62 then n - 4
             else if n = 62 then 43 else 47)"

definition b64_value :: "code_unit \<Rightarrow> nat option" where
  "b64_value u =
     (let c = unat u in
      if 65 \<le> c \<and> c \<le> 90 then Some (c - 65)
      else if 97 \<le> c \<and> c \<le> 122 then Some (c - 71)
      else if 48 \<le> c \<and> c \<le> 57 then Some (c + 4)
      else if c = 43 then Some 62
      else if c = 47 then Some 63
      else None)"

fun btoa_bytes :: "nat list \<Rightarrow> jsstring" where
  "btoa_bytes [] = []"
| "btoa_bytes [a] = [b64_char (a div 4), b64_char (a mod 4 * 16), 61, 61]"
| "btoa_bytes [a, b] =
     [b64_char (a div 4), b64_char (a mod 4 * 16 + b div 16), b64_char (b mod 16 * 4), 61]"
| "btoa_bytes (a # b # c # rest) =
     [b64_char (a div 4), b64_char (a mod 4 * 16 + b div 16),
      b64_char (b mod 16 * 4 + c div 64), b64_char (c mod 64)] @ btoa_bytes rest"

definition base64_of :: "bytes \<Rightarrow> jsstring" where
  "base64_of buffer = btoa_bytes (map unat buffer)"

text \<open>
  \<open>base64ToArray(b64)\<close> is atob followed by a copy of the character codes into a Uint8Array. atob
  is the forgiving base64 decoder of the HTML standard: ASCII whitespace is removed; when the
  length is then a multiple of four, one or two final "=" are removed; a length of one more than a
  multiple of four, or any character outside the alphabet, raises InvalidCharacterError; the bits
  left over in a final group of two or three characters are dropped without being looked at.
\<close>

definition ascii_whitespace :: "code_unit \<Rightarrow> bool" where
  "ascii_whitespace u \<longleftrightarrow> u = 9 \<or> u = 10 \<or> u = 12 \<or> u = 13 \<or> u = 32"

definition strip_padding :: "jsstring \<Rightarrow> jsstring" where
  "strip_padding data =
     (if length data mod 4 = 0 then
        (case rev data of
           x # y # rest \<Rightarrow> if x = 61 then (if y = 61 then rev rest else rev (y # rest)) else data
         | _ \<Rightarrow> data)
      else data)"

fun b64_bytes :: "nat list \<Rightarrow> nat list" where
  "b64_bytes (s1 # s2 # s3 # s4 # rest) =
     [s1 * 4 + s2 div 16, s2 mod 16 * 16 + s3 div 4, s3 mod 4 * 64 + s4] @ b64_bytes rest"
| "b64_bytes [s1, s2, s3] = [s1 * 4 + s2 div 16, s2 mod 16 * 16 + s3 div 4]"
| "b64_bytes [s1, s2] = [s1 * 4 + s2 div 16]"
| "b64_bytes [s1] = []"
| "b64_bytes [] = []"

definition atob :: "jsstring \<Rightarrow> js_error + jsstring" where
  "atob data =
     (let d = strip_padding (filter (\<lambda>u. \<not> ascii_whitespace u) data) in
      if length d mod 4 = 1 then Inl InvalidCharacterError
      else (case those (map b64_value d) of
              None \<Rightarrow> Inl InvalidCharacterError
            | Some vs \<Rightarrow> Inr (map of_nat (b64_bytes vs))))"

definition base64ToArray :: "jsstring \<Rightarrow> js_error + bytes" where
  "base64ToArray b64 = (case atob b64 of Inl e \<Rightarrow> Inl e | Inr bin \<Rightarrow> Inr (map ucast bin))"


section \<open>The platform: SubtleCrypto, the random source, JSON\<close>

text \<open>
  The primitives the code calls and does not define. A CryptoKey is represented by its key
  bytes. \<open>pbkdf2\<close> takes the hash, the password bytes, the salt, the iteration count and the key
  length in bits; \<open>aes_gcm_encrypt\<close> and \<open>aes_gcm_decrypt\<close> take key, iv and data, and a
  decryption that the platform rejects (OperationError) is \<open>None\<close>; \<open>spki_valid\<close> and
  \<open>pkcs8_valid\<close> say whether importKey accepts the bytes (DataError otherwise);
  \<open>rsa_oaep_encrypt\<close> takes the public key, the random seed of the padding and the message;
  \<open>json_stringify\<close> takes the indentation. The numbers of a JSON value are the platform's (IEEE
  doubles in a browser): their type is the parameter \<open>'n\<close>, and \<open>number_to_string\<close> is the
  platform's conversion of a number to a string (it writes ten to the power 21 as 1e+21).
  \<open>argument_limit\<close> is the largest number of arguments that the engine accepts in the call
  \<open>String.fromCharCode(...bytes)\<close>; a call with more raises RangeError. The number depends on the
  engine, from some tens of thousands to some hundreds of thousands, and on some engines on the
  stack that is free when the call is made; it is taken as one number for the calls of one run.
\<close>

datatype hash_alg = SHA_1 | SHA_256 | SHA_384 | SHA_512

datatype 'n json =
    JNull
  | JBool bool
  | JNum 'n
  | JStr jsstring
  | JArr "'n json list"
  | JObj "(jsstring \<times> 'n json) list"

record 'n platform =
  pbkdf2 :: "hash_alg \<Rightarrow> bytes \<Rightarrow> bytes \<Rightarrow> nat \<Rightarrow> nat \<Rightarrow> bytes"
  aes_gcm_encrypt :: "bytes \<Rightarrow> bytes \<Rightarrow> bytes \<Rightarrow> bytes"
  aes_gcm_decrypt :: "bytes \<Rightarrow> bytes \<Rightarrow> bytes \<Rightarrow> bytes option"
  spki_valid :: "bytes \<Rightarrow> bool"
  pkcs8_valid :: "bytes \<Rightarrow> bool"
  rsa_oaep_encrypt :: "bytes \<Rightarrow> bytes \<Rightarrow> bytes \<Rightarrow> bytes option"
  rsa_oaep_decrypt :: "bytes \<Rightarrow> bytes \<Rightarrow> bytes option"
  digest :: "hash_alg \<Rightarrow> bytes \<Rightarrow> bytes"
  json_stringify :: "nat \<Rightarrow> 'n json \<Rightarrow> jsstring"
  json_parse :: "jsstring \<Rightarrow> 'n json option"
  number_to_string :: "'n \<Rightarrow> jsstring"
  argument_limit :: nat

text \<open>
  crypto.getRandomValues and generateKey read a random source, modelled as an infinite tape of
  bytes. Reading n bytes returns them and the tape advanced by n; \<open>draw g off n\<close> names the n
  bytes at offset off.
\<close>

type_synonym rng = "nat \<Rightarrow> byte"

definition advance :: "nat \<Rightarrow> rng \<Rightarrow> rng" where
  "advance n g = (\<lambda>i. g (n + i))"

definition draw :: "rng \<Rightarrow> nat \<Rightarrow> nat \<Rightarrow> bytes" where
  "draw g off n = map g [off..<off + n]"

definition getRandomValues :: "nat \<Rightarrow> rng \<Rightarrow> bytes \<times> rng" where
  "getRandomValues n g = (map g [0..<n], advance n g)"

text \<open>
  Reading a property of a parsed JSON value: a TypeError on null, the field of an object or
  undefined (\<open>None\<close>), and undefined on every other value for the names read here. \<open>ToString\<close> is
  the conversion atob applies to an argument that is not a string: the literal for null, a
  boolean and undefined, the platform's digits for a number, the elements joined by commas for
  an array (null written as nothing), and "[object Object]" for an object.
\<close>

fun get_prop :: "'n json \<Rightarrow> jsstring \<Rightarrow> js_error + 'n json option" where
  "get_prop JNull name = Inl TypeError"
| "get_prop (JObj props) name = Inr (map_of props name)"
| "get_prop other name = Inr None"

fun join :: "jsstring \<Rightarrow> jsstring list \<Rightarrow> jsstring" where
  "join sep [] = []"
| "join sep [x] = x"
| "join sep (x # y # rest) = x @ sep @ join sep (y # rest)"

fun ToString :: "'n platform \<Rightarrow> 'n json \<Rightarrow> jsstring" where
  "ToString P JNull = js ''null''"
| "ToString P (JBool b) = (if b then js ''true'' else js ''false'')"
| "ToString P (JNum n) = number_to_string P n"
| "ToString P (JStr s) = s"
| "ToString P (JArr xs) = join [44] (map (\<lambda>x. if x = JNull then [] else ToString P x) xs)"
| "ToString P (JObj props) = js ''[object Object]''"

definition ToString_arg :: "'n platform \<Rightarrow> 'n json option \<Rightarrow> jsstring" where
  "ToString_arg P v = (case v of None \<Rightarrow> js ''undefined'' | Some x \<Rightarrow> ToString P x)"

section \<open>crypto.js\<close>

text \<open>
  The functions of crypto.js, statement by statement. \<open>arrayToBase64(buffer)\<close> is
  \<open>btoa(String.fromCharCode(...new Uint8Array(buffer)))\<close>: the spread makes every byte of the
  buffer an argument of the one call, which raises RangeError when the buffer has more bytes than
  the engine accepts arguments. The envelope of a wrapped private key is the object
  \<open>{ ct, salt, iv }\<close>, a message bundle the object \<open>{ ciphertext, encKey, iv }\<close>; the fields carry
  a prefix here, and are computed in the order in which the object literal lists them.
\<close>

definition arrayToBase64 :: "'n platform \<Rightarrow> bytes \<Rightarrow> js_error + jsstring" where
  "arrayToBase64 P buffer =
     (if argument_limit P < length buffer then Inl RangeError else Inr (base64_of buffer))"

definition deriveKey :: "'n platform \<Rightarrow> jsstring \<Rightarrow> bytes \<Rightarrow> bytes" where
  "deriveKey P passphrase salt = pbkdf2 P SHA_256 (TextEncoder_encode passphrase) salt 100000 256"

record envelope =
  env_ct :: jsstring
  env_salt :: jsstring
  env_iv :: jsstring

definition encryptPrivateKey ::
    "'n platform \<Rightarrow> rng \<Rightarrow> jsstring \<Rightarrow> jsstring \<Rightarrow> js_error + envelope \<times> rng" where
  "encryptPrivateKey P g privateKeyB64 passphrase =
     (case getRandomValues 16 g of (salt, g1) \<Rightarrow>
      case getRandomValues 12 g1 of (iv, g2) \<Rightarrow>
        let key = deriveKey P passphrase salt;
            enc = TextEncoder_encode privateKeyB64;
            ct = aes_gcm_encrypt P key iv enc
        in case arrayToBase64 P ct of Inl e \<Rightarrow> Inl e | Inr ct_b64 \<Rightarrow>
           case arrayToBase64 P salt of Inl e \<Rightarrow> Inl e | Inr salt_b64 \<Rightarrow>
           case arrayToBase64 P iv of Inl e \<Rightarrow> Inl e | Inr iv_b64 \<Rightarrow>
             Inr (\<lparr>env_ct = ct_b64, env_salt = salt_b64, env_iv = iv_b64\<rparr>, g2))"

definition decryptPrivateKey :: "'n platform \<Rightarrow> envelope \<Rightarrow> jsstring \<Rightarrow> js_error + jsstring" where
  "decryptPrivateKey P pkg passphrase =
     (case base64ToArray (env_salt pkg) of Inl e \<Rightarrow> Inl e | Inr salt \<Rightarrow>
      case base64ToArray (env_iv pkg) of Inl e \<Rightarrow> Inl e | Inr iv \<Rightarrow>
      case base64ToArray (env_ct pkg) of Inl e \<Rightarrow> Inl e | Inr ct \<Rightarrow>
      case aes_gcm_decrypt P (deriveKey P passphrase salt) iv ct of
        None \<Rightarrow> Inl OperationError
      | Some plain \<Rightarrow> Inr (TextDecoder_decode plain))"

definition importPublicKey :: "'n platform \<Rightarrow> jsstring \<Rightarrow> js_error + bytes" where
  "importPublicKey P b64 =
     (case base64ToArray b64 of Inl e \<Rightarrow> Inl e
      | Inr spki \<Rightarrow> if spki_valid P spki then Inr spki else Inl DataError)"

definition importPrivateKey :: "'n platform \<Rightarrow> jsstring \<Rightarrow> js_error + bytes" where
  "importPrivateKey P b64 =
     (case base64ToArray b64 of Inl e \<Rightarrow> Inl e
      | Inr pkcs8 \<Rightarrow> if pkcs8_valid P pkcs8 then Inr pkcs8 else Inl DataError)"

record message_bundle =
  b_ciphertext :: jsstring
  b_encKey :: jsstring
  b_iv :: jsstring

text \<open>
  encryptMessage imports the public key, generates the AES-256 session key and exports its 32
  raw bytes, draws the 12-byte iv, seals the plaintext, and wraps the raw key with RSA-OAEP, whose
  padding draws a 32-byte seed.
\<close>

definition encryptMessage ::
    "'n platform \<Rightarrow> rng \<Rightarrow> jsstring \<Rightarrow> jsstring \<Rightarrow> js_error + message_bundle \<times> rng" where
  "encryptMessage P g plaintext recipientPubKeyB64 =
     (case importPublicKey P recipientPubKeyB64 of Inl e \<Rightarrow> Inl e
      | Inr recipientPubKey \<Rightarrow>
      case getRandomValues 32 g of (aesRaw, g1) \<Rightarrow>
      case getRandomValues 12 g1 of (iv, g2) \<Rightarrow>
      case getRandomValues 32 g2 of (seed, g3) \<Rightarrow>
        let msgBytes = TextEncoder_encode plaintext;
            ciphertext = aes_gcm_encrypt P aesRaw iv msgBytes
        in case rsa_oaep_encrypt P recipientPubKey seed aesRaw of
             None \<Rightarrow> Inl OperationError
           | Some encKey \<Rightarrow>
               (case arrayToBase64 P ciphertext of Inl e \<Rightarrow> Inl e | Inr ciphertext_b64 \<Rightarrow>
                case arrayToBase64 P encKey of Inl e \<Rightarrow> Inl e | Inr encKey_b64 \<Rightarrow>
                case arrayToBase64 P iv of Inl e \<Rightarrow> Inl e | Inr iv_b64 \<Rightarrow>
                  Inr (\<lparr>b_ciphertext = ciphertext_b64, b_encKey = encKey_b64,
                         b_iv = iv_b64\<rparr>, g3)))"

text \<open>
  decryptMessage has no catch: each failure is the exception of the step that failed. importKey
  of the unwrapped bytes as an AES key raises DataError unless they are 16, 24 or 32 bytes.
\<close>

definition decryptMessage :: "'n platform \<Rightarrow> message_bundle \<Rightarrow> jsstring \<Rightarrow> js_error + jsstring" where
  "decryptMessage P pkg privateKeyB64 =
     (case importPrivateKey P privateKeyB64 of Inl e \<Rightarrow> Inl e | Inr privateKey \<Rightarrow>
      case base64ToArray (b_encKey pkg) of Inl e \<Rightarrow> Inl e | Inr encAesKeyBytes \<Rightarrow>
      case rsa_oaep_decrypt P privateKey encAesKeyBytes of None \<Rightarrow> Inl OperationError
      | Some aesRaw \<Rightarrow>
      if length aesRaw \<noteq> 16 \<and> length aesRaw \<noteq> 24 \<and> length aesRaw \<noteq> 32 then Inl DataError
      else
      case base64ToArray (b_iv pkg) of Inl e \<Rightarrow> Inl e | Inr iv \<Rightarrow>
      case base64ToArray (b_ciphertext pkg) of Inl e \<Rightarrow> Inl e | Inr ciphertext \<Rightarrow>
      case aes_gcm_decrypt P aesRaw iv ciphertext of
        None \<Rightarrow> Inl OperationError
      | Some plaintext \<Rightarrow> Inr (TextDecoder_decode plaintext))"

text \<open>
  getKeyFingerprint: every digest byte as \<open>b.toString(16).padStart(2, '0')\<close>, joined, upper-cased,
  matched against \<open>/.{4}/g\<close> and joined by spaces. The dot matches any code unit but a line
  terminator; match returns null when nothing matches, and the following join then raises a
  TypeError. toUpperCase is modelled on ASCII letters, the only letters that occur.
\<close>

definition hex_digit :: "nat \<Rightarrow> code_unit" where
  "hex_digit d = of_nat (if d < 10 then 48 + d else 87 + d)"

definition toString16 :: "nat \<Rightarrow> jsstring" where
  "toString16 b = (if b < 16 then [hex_digit b] else [hex_digit (b div 16), hex_digit (b mod 16)])"

definition padStart :: "nat \<Rightarrow> code_unit \<Rightarrow> jsstring \<Rightarrow> jsstring" where
  "padStart n c s = replicate (n - length s) c @ s"

definition toUpperCase :: "jsstring \<Rightarrow> jsstring" where
  "toUpperCase s = map (\<lambda>u. if 97 \<le> unat u \<and> unat u \<le> 122 then u - 32 else u) s"

definition line_terminator :: "code_unit \<Rightarrow> bool" where
  "line_terminator u \<longleftrightarrow> u = 0x0A \<or> u = 0x0D \<or> u = 0x2028 \<or> u = 0x2029"

fun match_dot4 :: "jsstring \<Rightarrow> jsstring list" where
  "match_dot4 (a # b # c # d # rest) =
     (if line_terminator a \<or> line_terminator b \<or> line_terminator c \<or> line_terminator d
      then match_dot4 (b # c # d # rest)
      else [a, b, c, d] # match_dot4 rest)"
| "match_dot4 s = []"

definition getKeyFingerprint :: "'n platform \<Rightarrow> jsstring \<Rightarrow> js_error + jsstring" where
  "getKeyFingerprint P pubKeyB64 =
     (case base64ToArray pubKeyB64 of Inl e \<Rightarrow> Inl e | Inr bytes \<Rightarrow>
        let hash = digest P SHA_256 bytes;
            hex = concat (map (\<lambda>b. padStart 2 48 (toString16 (unat b))) hash);
            groups = match_dot4 (toUpperCase hex)
        in if groups = [] then Inl TypeError else Inr (join [32] groups))"

section \<open>backup.js\<close>

text \<open>
  The functions of backup.js. encryptBackup builds the object \<open>pkg\<close> and returns
  \<open>JSON.stringify(pkg, null, 2)\<close>; \<open>backup_envelope\<close> is the function up to that object, whose
  properties are computed in the order of the literal: the three calls of arrayToBase64 before
  \<open>backupData.stats\<close> and \<open>backupData.owner.username\<close>. The clock read by
  \<open>new Date().toISOString()\<close> is the argument \<open>now\<close>. A property whose value is undefined is left
  out by JSON.stringify, hence \<open>optional_field\<close>.
\<close>

definition BACKUP_MAGIC :: jsstring where
  "BACKUP_MAGIC = js ''CIPHERCHAT_BACKUP_V1''"

definition deriveBackupKey :: "'n platform \<Rightarrow> jsstring \<Rightarrow> bytes \<Rightarrow> bytes" where
  "deriveBackupKey P password salt = pbkdf2 P SHA_256 (TextEncoder_encode password) salt 150000 256"

definition optional_field :: "string \<Rightarrow> 'n json option \<Rightarrow> (jsstring \<times> 'n json) list" where
  "optional_field name v = (case v of None \<Rightarrow> [] | Some x \<Rightarrow> [(js name, x)])"

definition backup_pkg ::
    "jsstring \<Rightarrow> jsstring \<Rightarrow> jsstring \<Rightarrow> jsstring \<Rightarrow> 'n json option \<Rightarrow> 'n json option \<Rightarrow>
     'n json" where
  "backup_pkg now salt_b64 iv_b64 ciphertext_b64 stats owner =
     JObj ([(js ''magic'', JStr BACKUP_MAGIC),
            (js ''version'', JStr (js ''1.0'')),
            (js ''createdAt'', JStr now),
            (js ''salt'', JStr salt_b64),
            (js ''iv'', JStr iv_b64),
            (js ''ciphertext'', JStr ciphertext_b64)]
           @ optional_field ''stats'' stats @ optional_field ''owner'' owner)"

definition backup_envelope ::
    "'n platform \<Rightarrow> rng \<Rightarrow> jsstring \<Rightarrow> 'n json \<Rightarrow> jsstring \<Rightarrow> js_error + 'n json \<times> rng" where
  "backup_envelope P g now backupData backupPassword =
     (case getRandomValues 16 g of (salt, g1) \<Rightarrow>
      case getRandomValues 12 g1 of (iv, g2) \<Rightarrow>
        let key = deriveBackupKey P backupPassword salt;
            jsonStr = json_stringify P 0 backupData;
            encoded = TextEncoder_encode jsonStr;
            ciphertext = aes_gcm_encrypt P key iv encoded
        in case arrayToBase64 P salt of Inl e \<Rightarrow> Inl e | Inr salt_b64 \<Rightarrow>
           case arrayToBase64 P iv of Inl e \<Rightarrow> Inl e | Inr iv_b64 \<Rightarrow>
           case arrayToBase64 P ciphertext of Inl e \<Rightarrow> Inl e | Inr ciphertext_b64 \<Rightarrow>
           case get_prop backupData (js ''stats'') of Inl e \<Rightarrow> Inl e | Inr stats \<Rightarrow>
           case get_prop backupData (js ''owner'') of Inl e \<Rightarrow> Inl e | Inr owner \<Rightarrow>
           case (case owner of None \<Rightarrow> Inl TypeError
                 | Some o' \<Rightarrow> get_prop o' (js ''username'')) of
             Inl e \<Rightarrow> Inl e
           | Inr username \<Rightarrow>
               Inr (backup_pkg now salt_b64 iv_b64 ciphertext_b64 stats username, g2))"

definition encryptBackup ::
    "'n platform \<Rightarrow> rng \<Rightarrow> jsstring \<Rightarrow> 'n json \<Rightarrow> jsstring \<Rightarrow> js_error + jsstring \<times> rng" where
  "encryptBackup P g now backupData backupPassword =
     (case backup_envelope P g now backupData backupPassword of
        Inl e \<Rightarrow> Inl e
      | Inr (pkg, g') \<Rightarrow> Inr (json_stringify P 2 pkg, g'))"

text \<open>
  decryptBackup in three parts, as the source has them: JSON.parse in a try of its own, the
  comparison of \<open>pkg.magic\<close>, and a second try around everything else, whose catch replaces any
  exception by the wrong-backup-password error. \<open>decryptBackup_run\<close> also returns the calls of
  SubtleCrypto that were made, in order: deriveBackupKey makes two (importKey, deriveKey), then
  comes decrypt.
\<close>

datatype subtle_op = ImportKey | DeriveKey | Decrypt

definition decryptBackup_try ::
    "'n platform \<Rightarrow> 'n json \<Rightarrow> jsstring \<Rightarrow> subtle_op list \<times> (js_error + 'n json)" where
  "decryptBackup_try P pkg backupPassword =
     (case get_prop pkg (js ''salt'') of Inl e \<Rightarrow> ([], Inl e) | Inr salt_field \<Rightarrow>
      case base64ToArray (ToString_arg P salt_field) of Inl e \<Rightarrow> ([], Inl e) | Inr salt \<Rightarrow>
      case get_prop pkg (js ''iv'') of Inl e \<Rightarrow> ([], Inl e) | Inr iv_field \<Rightarrow>
      case base64ToArray (ToString_arg P iv_field) of Inl e \<Rightarrow> ([], Inl e) | Inr iv \<Rightarrow>
      case get_prop pkg (js ''ciphertext'') of Inl e \<Rightarrow> ([], Inl e) | Inr ct_field \<Rightarrow>
      case base64ToArray (ToString_arg P ct_field) of Inl e \<Rightarrow> ([], Inl e) | Inr ciphertext \<Rightarrow>
        let key = deriveBackupKey P backupPassword salt in
        case aes_gcm_decrypt P key iv ciphertext of
          None \<Rightarrow> ([ImportKey, DeriveKey, Decrypt], Inl OperationError)
        | Some decrypted \<Rightarrow>
            (case json_parse P (TextDecoder_decode decrypted) of
               None \<Rightarrow> ([ImportKey, DeriveKey, Decrypt], Inl SyntaxError)
             | Some v \<Rightarrow> ([ImportKey, DeriveKey, Decrypt], Inr v)))"

definition decryptBackup_run ::
    "'n platform \<Rightarrow> jsstring \<Rightarrow> jsstring \<Rightarrow> subtle_op list \<times> (js_error + 'n json)" where
  "decryptBackup_run P backupFileContent backupPassword =
     (case json_parse P backupFileContent of
        None \<Rightarrow> ([], Inl InvalidBackupJSON)
      | Some pkg \<Rightarrow>
          (case get_prop pkg (js ''magic'') of
             Inl e \<Rightarrow> ([], Inl e)
           | Inr magic \<Rightarrow>
               if magic \<noteq> Some (JStr BACKUP_MAGIC) then ([], Inl NotACipherChatBackup)
               else (case decryptBackup_try P pkg backupPassword of
                       (ops, Inl e) \<Rightarrow> (ops, Inl WrongBackupPassword)
                     | (ops, Inr v) \<Rightarrow> (ops, Inr v))))"

definition decryptBackup :: "'n platform \<Rightarrow> jsstring \<Rightarrow> jsstring \<Rightarrow> js_error + 'n json" where
  "decryptBackup P backupFileContent backupPassword =
     snd (decryptBackup_run P backupFileContent backupPassword)"

section \<open>Callers: login and sendMessage\<close>

text \<open>
  login, from the response of the login request on: it unwraps the private key with the login
  password; its catch reports \<open>err.response?.data?.message || 'Login failed'\<close>.
\<close>

record login_response =
  lr_encryptedPrivateKey :: envelope
  lr_token :: jsstring

record login_outcome =
  lo_success :: bool
  lo_message :: "jsstring option"
  lo_privateKey :: "jsstring option"

definition login :: "'n platform \<Rightarrow> js_error + login_response \<Rightarrow> jsstring \<Rightarrow> login_outcome" where
  "login P response password =
     (case (case response of Inl e \<Rightarrow> Inl e
            | Inr data \<Rightarrow> decryptPrivateKey P (lr_encryptedPrivateKey data) password) of
        Inr privKey \<Rightarrow> \<lparr>lo_success = True, lo_message = None, lo_privateKey = Some privKey\<rparr>
      | Inl err \<Rightarrow>
          \<lparr>lo_success = False,
            lo_message = Some (case err of
                                 HttpError (Some m) \<Rightarrow> if m = [] then js ''Login failed'' else m
                               | _ \<Rightarrow> js ''Login failed''),
            lo_privateKey = None\<rparr>)"

text \<open>
  sendMessage starts two calls of encryptMessage under Promise.all. A call of an async function
  runs until its first await and gives way; it is taken up again when the awaited operation has
  finished, runs until the next await, and so on. So the two calls advance in turns, and both read
  the one random source. \<open>encrypt_task\<close> is a call of encryptMessage between two of its five
  awaits, with the values the rest of the body uses: \<open>encryptMessage_call\<close> runs the body up to
  the first await (base64ToArray of the key, which can throw, and the call of importKey), and
  \<open>resume\<close> takes the call from one await to the next. The random bytes of an operation of
  SubtleCrypto (the key of generateKey, the seed of the RSA-OAEP padding) are read while the
  operation runs; the model reads them when the call is resumed with the result, which leaves every
  order of the reads of two calls possible. Run alone, the steps are encryptMessage as defined
  above (lemma encryptMessage_steps).
\<close>

datatype encrypt_task =
    AwaitImportKey jsstring bytes
  | AwaitGenerateKey jsstring bytes
  | AwaitExportKey jsstring bytes bytes
  | AwaitEncrypt bytes bytes bytes bytes
  | AwaitWrapKey bytes bytes bytes bytes
  | Settled "js_error + message_bundle"

definition encryptMessage_call :: "'n platform \<Rightarrow> jsstring \<Rightarrow> jsstring \<Rightarrow> encrypt_task" where
  "encryptMessage_call P plaintext recipientPubKeyB64 =
     (case base64ToArray recipientPubKeyB64 of
        Inl e \<Rightarrow> Settled (Inl e)
      | Inr spki \<Rightarrow> AwaitImportKey plaintext spki)"

fun resume :: "'n platform \<Rightarrow> encrypt_task \<Rightarrow> rng \<Rightarrow> encrypt_task \<times> rng" where
  "resume P (AwaitImportKey plaintext spki) g =
     (if spki_valid P spki then AwaitGenerateKey plaintext spki else Settled (Inl DataError), g)"
| "resume P (AwaitGenerateKey plaintext recipientPubKey) g =
     (case getRandomValues 32 g of (aesKey, g') \<Rightarrow>
        (AwaitExportKey plaintext recipientPubKey aesKey, g'))"
| "resume P (AwaitExportKey plaintext recipientPubKey aesRaw) g =
     (case getRandomValues 12 g of (iv, g') \<Rightarrow>
        (AwaitEncrypt recipientPubKey aesRaw iv (TextEncoder_encode plaintext), g'))"
| "resume P (AwaitEncrypt recipientPubKey aesRaw iv msgBytes) g =
     (AwaitWrapKey recipientPubKey aesRaw iv (aes_gcm_encrypt P aesRaw iv msgBytes), g)"
| "resume P (AwaitWrapKey recipientPubKey aesRaw iv ciphertext) g =
     (case getRandomValues 32 g of (seed, g') \<Rightarrow>
        (Settled
           (case rsa_oaep_encrypt P recipientPubKey seed aesRaw of
              None \<Rightarrow> Inl OperationError
            | Some encKey \<Rightarrow>
                (case arrayToBase64 P ciphertext of Inl e \<Rightarrow> Inl e | Inr ciphertext_b64 \<Rightarrow>
                 case arrayToBase64 P encKey of Inl e \<Rightarrow> Inl e | Inr encKey_b64 \<Rightarrow>
                 case arrayToBase64 P iv of Inl e \<Rightarrow> Inl e | Inr iv_b64 \<Rightarrow>
                   Inr \<lparr>b_ciphertext = ciphertext_b64, b_encKey = encKey_b64, b_iv = iv_b64\<rparr>)),
         g'))"
| "resume P (Settled result) g = (Settled result, g)"

fun settle :: "'n platform \<Rightarrow> nat \<Rightarrow> encrypt_task \<Rightarrow> rng \<Rightarrow> encrypt_task \<times> rng" where
  "settle P 0 task g = (task, g)"
| "settle P (Suc n) task g = (case resume P task g of (task', g') \<Rightarrow> settle P n task' g')"

text \<open>
  Promise.all of the two calls. The order in which the awaited operations finish, and with it the
  order in which the calls are resumed, is the platform's: it is the argument \<open>order\<close>, a list
  that says for each turn whether the first call is resumed or the second. A turn given to a
  call that has settled changes nothing. When the list is used up the first call is resumed
  until it settles, five times at most, and then the second; so every list gives a complete run,
  and every order of the steps is the run of some list. \<open>in_turn\<close>, the list that alternates, is
  the order in which the operations were started.
\<close>

fun Promise_all ::
    "'n platform \<Rightarrow> bool list \<Rightarrow> encrypt_task \<times> encrypt_task \<Rightarrow> rng \<Rightarrow>
     (encrypt_task \<times> encrypt_task) \<times> rng" where
  "Promise_all P [] (first, second) g =
     (case settle P 5 first g of (first', g1) \<Rightarrow>
      case settle P 5 second g1 of (second', g2) \<Rightarrow> ((first', second'), g2))"
| "Promise_all P (turn # order) (first, second) g =
     (if turn
      then (case resume P first g of (first', g') \<Rightarrow> Promise_all P order (first', second) g')
      else (case resume P second g of (second', g') \<Rightarrow> Promise_all P order (first, second') g'))"

definition in_turn :: "bool list" where
  "in_turn = [True, False, True, False, True, False, True, False, True, False]"

text \<open>
  sendMessage up to the request that posts the message. \<open>input.trim()\<close> removes the white space
  and the line terminators of ECMAScript from both ends. The function returns at once when the
  trimmed text is empty, when a message is being sent, or when no contact is open; \<open>contact\<close> is
  the public key of the open contact, \<open>userPublicKey\<close> that of the user who is logged in. When
  both calls of encryptMessage have returned a bundle, the two bundles are posted; when one of
  them throws, the catch shows \<open>err.response?.data?.message || 'Failed to send message'\<close>, and an
  exception of encryptMessage has no response.
\<close>

definition white_space :: "code_unit \<Rightarrow> bool" where
  "white_space u \<longleftrightarrow>
     u = 0x09 \<or> u = 0x0B \<or> u = 0x0C \<or> u = 0x20 \<or> u = 0xA0 \<or> u = 0x1680
     \<or> (0x2000 \<le> unat u \<and> unat u \<le> 0x200A)
     \<or> u = 0x202F \<or> u = 0x205F \<or> u = 0x3000 \<or> u = 0xFEFF \<or> line_terminator u"

definition trim :: "jsstring \<Rightarrow> jsstring" where
  "trim s = rev (dropWhile white_space (rev (dropWhile white_space s)))"

datatype send_outcome =
    Returned
  | Alerted jsstring
  | Posted message_bundle message_bundle

definition sendMessage ::
    "'n platform \<Rightarrow> bool list \<Rightarrow> rng \<Rightarrow> jsstring \<Rightarrow> bool \<Rightarrow> jsstring option \<Rightarrow> jsstring \<Rightarrow>
     send_outcome" where
  "sendMessage P order g input sending contact userPublicKey =
     (let text = trim input in
      if text = [] \<or> sending then Returned
      else case contact of
        None \<Rightarrow> Returned
      | Some contactPublicKey \<Rightarrow>
          (case fst (Promise_all P order
                       (encryptMessage_call P text contactPublicKey,
                        encryptMessage_call P text userPublicKey) g) of
             (Settled (Inr encryptedForRecipient), Settled (Inr encryptedForSender)) \<Rightarrow>
               Posted encryptedForRecipient encryptedForSender
           | _ \<Rightarrow> Alerted (js ''Failed to send message'')))"

section \<open>A transparent platform for concrete runs\<close>

text \<open>
  A platform whose primitives are transparent and not secure, for running the model on concrete
  inputs: the key and the iv are appended to the plaintext and compared on opening, the public
  key is the private key with every byte incremented, a key is any one to 1024 bytes, key
  derivation and digest pad or cut their
  input to length, and JSON is a finite book of texts and the values they stand for. Its numbers
  are the unsigned 32-bit integers, which JavaScript writes in decimal digits, and a call takes
  65535 arguments. There are three random sources: two that do not repeat a block of 32 bytes
  within the first 256 bytes, and one that returns zeros only.
\<close>

definition demo_aes_encrypt :: "bytes \<Rightarrow> bytes \<Rightarrow> bytes \<Rightarrow> bytes" where
  "demo_aes_encrypt k iv pt = pt @ k @ iv"

definition demo_aes_decrypt :: "bytes \<Rightarrow> bytes \<Rightarrow> bytes \<Rightarrow> bytes option" where
  "demo_aes_decrypt k iv ct =
     (let n = length k + length iv in
      if n \<le> length ct \<and> drop (length ct - n) ct = k @ iv
      then Some (take (length ct - n) ct) else None)"

definition demo_public :: "bytes \<Rightarrow> bytes" where
  "demo_public priv = map (\<lambda>b. b + 1) priv"

definition demo_rsa_encrypt :: "bytes \<Rightarrow> bytes \<Rightarrow> bytes \<Rightarrow> bytes option" where
  "demo_rsa_encrypt pub seed m = (if 190 < length m then None else Some (m @ seed @ pub))"

definition demo_rsa_decrypt :: "bytes \<Rightarrow> bytes \<Rightarrow> bytes option" where
  "demo_rsa_decrypt priv c =
     (let n = length priv + 32 in
      if n \<le> length c \<and> drop (length c - length priv) c = demo_public priv
      then Some (take (length c - n) c) else None)"

definition demo_stretch :: "nat \<Rightarrow> bytes \<Rightarrow> bytes" where
  "demo_stretch n bs = take n (bs @ replicate n 0)"

type_synonym demo_number = "32 word"

fun decimal :: "nat \<Rightarrow> jsstring" where
  "decimal n = (if n < 10 then [of_nat (48 + n)] else decimal (n div 10) @ [of_nat (48 + n mod 10)])"

definition demo_stringify ::
    "(jsstring \<times> demo_number json) list \<Rightarrow> demo_number json \<Rightarrow> jsstring" where
  "demo_stringify book v =
     (case find (\<lambda>entry. snd entry = v) book of None \<Rightarrow> js ''null'' | Some entry \<Rightarrow> fst entry)"

definition demo_platform :: "(jsstring \<times> demo_number json) list \<Rightarrow> demo_number platform" where
  "demo_platform book =
     \<lparr>pbkdf2 = (\<lambda>h pw salt iterations bits. demo_stretch (bits div 8) (pw @ salt)),
      aes_gcm_encrypt = demo_aes_encrypt,
      aes_gcm_decrypt = demo_aes_decrypt,
      spki_valid = (\<lambda>k. k \<noteq> [] \<and> length k \<le> 1024),
      pkcs8_valid = (\<lambda>k. k \<noteq> [] \<and> length k \<le> 1024),
      rsa_oaep_encrypt = demo_rsa_encrypt,
      rsa_oaep_decrypt = demo_rsa_decrypt,
      digest = (\<lambda>h bs. demo_stretch 32 bs),
      json_stringify = (\<lambda>indent. demo_stringify book),
      json_parse = map_of book,
      number_to_string = (\<lambda>n. decimal (unat n)),
      argument_limit = 65535\<rparr>"

definition demo_rng :: rng where
  "demo_rng i = of_nat (7 * i + 3)"

definition count_rng :: rng where
  "count_rng i = of_nat i"

definition stuck_rng :: rng where
  "stuck_rng i = 0"

definition demo_privateKey :: jsstring where
  "demo_privateKey = base64_of [1, 2, 3]"

definition demo_publicKey :: jsstring where
  "demo_publicKey = base64_of (demo_public [1, 2, 3])"

definition demo_senderPrivateKey :: jsstring where
  "demo_senderPrivateKey = base64_of [9, 8, 7, 6]"

definition demo_senderPublicKey :: jsstring where
  "demo_senderPublicKey = base64_of (demo_public [9, 8, 7, 6])"

definition demo_key_envelope :: envelope where
  "demo_key_envelope =
     \<lparr>env_ct = base64_of
                (demo_aes_encrypt (demo_stretch 32 (TextEncoder_encode (js ''pw'') @ draw demo_rng 0 16))
                   (draw demo_rng 16 12) (TextEncoder_encode (js ''QUJD''))),
      env_salt = base64_of (draw demo_rng 0 16),
      env_iv = base64_of (draw demo_rng 16 12)\<rparr>"

definition demo_stats :: "demo_number json" where
  "demo_stats = JObj [(js ''totalMessages'', JNum 0), (js ''totalContacts'', JNum 0)]"

definition demo_payload :: "demo_number json" where
  "demo_payload =
     JObj [(js ''version'', JStr (js ''1.0'')),
           (js ''createdAt'', JStr (js ''2024-01-01T00:00:00.000Z'')),
           (js ''owner'', JObj [(js ''username'', JStr (js ''alice'')),
                                (js ''publicKey'', JStr demo_publicKey)]),
           (js ''contacts'', JArr []),
           (js ''messages'', JArr []),
           (js ''stats'', demo_stats)]"

definition demo_envelope :: "jsstring \<Rightarrow> jsstring \<Rightarrow> demo_number json" where
  "demo_envelope version password =
     JObj [(js ''magic'', JStr BACKUP_MAGIC),
           (js ''version'', JStr version),
           (js ''createdAt'', JStr (js ''2024-01-02T00:00:00.000Z'')),
           (js ''salt'', JStr (base64_of (draw demo_rng 0 16))),
           (js ''iv'', JStr (base64_of (draw demo_rng 16 12))),
           (js ''ciphertext'',
              JStr (base64_of
                (demo_aes_encrypt
                   (demo_stretch 32 (TextEncoder_encode password @ draw demo_rng 0 16))
                   (draw demo_rng 16 12) (TextEncoder_encode (js ''payload''))))),
           (js ''stats'', demo_stats),
           (js ''owner'', JStr (js ''alice''))]"

definition demo_book ::
    "jsstring \<Rightarrow> jsstring \<Rightarrow> (jsstring \<times> demo_number json) list" where
  "demo_book version password =
     [(js ''payload'', demo_payload), (js ''file'', demo_envelope version password)]"

definition demo_other_document :: "demo_number json" where
  "demo_other_document =
     JObj [(js ''magic'', JStr (js ''SOME_OTHER_FORMAT'')), (js ''version'', JStr (js ''1.0''))]"

section \<open>Contracts of the platform and the shapes the claims speak of\<close>

text \<open>
  What the theorems assume of the platform. AES-GCM opens what it sealed; a key pair is valid
  when its halves import and RSA-OAEP unwraps with the private half a 32-byte key wrapped for the
  public half; SHA-256 returns 32 bytes; JSON.parse reads back a value that JSON.stringify wrote.
  That AES-GCM or RSA-OAEP reject a wrong key or changed data is never assumed: where a claim
  depends on it, the rejection is a hypothesis about the particular call.

  A buffer is within the argument limit when arrayToBase64 can encode it. The small buffers are:
  a salt of 16 bytes, an iv of 12, and the RSA-OAEP ciphertext of a 32-byte key, which has the
  length of the modulus of the public key (256 bytes for the keys this program generates). The ciphertext of a message
  or of a backup grows with its plaintext and is bounded in each theorem by itself.
\<close>

definition aes_gcm_correct :: "'n platform \<Rightarrow> bool" where
  "aes_gcm_correct P \<longleftrightarrow>
     (\<forall>k iv pt. aes_gcm_decrypt P k iv (aes_gcm_encrypt P k iv pt) = Some pt)"

definition rsa_key_pair :: "'n platform \<Rightarrow> bytes \<Rightarrow> bytes \<Rightarrow> bool" where
  "rsa_key_pair P pub priv \<longleftrightarrow>
     spki_valid P pub \<and> pkcs8_valid P priv \<and>
     (\<forall>seed m. length seed = 32 \<and> length m = 32 \<longrightarrow>
        (case rsa_oaep_encrypt P pub seed m of
           None \<Rightarrow> False
         | Some c \<Rightarrow> rsa_oaep_decrypt P priv c = Some m))"

definition valid_key_pair :: "'n platform \<Rightarrow> jsstring \<Rightarrow> jsstring \<Rightarrow> bool" where
  "valid_key_pair P publicKey privateKey \<longleftrightarrow>
     (case base64ToArray publicKey of Inl e \<Rightarrow> False | Inr pub \<Rightarrow>
      case base64ToArray privateKey of Inl e \<Rightarrow> False | Inr priv \<Rightarrow> rsa_key_pair P pub priv)"

definition within_argument_limit :: "'n platform \<Rightarrow> bytes \<Rightarrow> bool" where
  "within_argument_limit P buffer \<longleftrightarrow> length buffer \<le> argument_limit P"

definition small_buffers_fit :: "'n platform \<Rightarrow> bool" where
  "small_buffers_fit P \<longleftrightarrow>
     16 \<le> argument_limit P \<and>
     (\<forall>pub seed m c. spki_valid P pub \<and> length seed = 32 \<and> length m = 32
        \<and> rsa_oaep_encrypt P pub seed m = Some c \<longrightarrow> within_argument_limit P c)"

definition sha256_length :: "'n platform \<Rightarrow> bool" where
  "sha256_length P \<longleftrightarrow> (\<forall>bs. length (digest P SHA_256 bs) = 32)"

definition json_reads_back :: "'n platform \<Rightarrow> nat \<Rightarrow> 'n json \<Rightarrow> bool" where
  "json_reads_back P indent v \<longleftrightarrow> json_parse P (json_stringify P indent v) = Some v"

text \<open>
  The strings that survive TextEncoder followed by TextDecoder, and the payloads that
  encryptBackup accepts.
\<close>

definition text_roundtrip :: "jsstring \<Rightarrow> bool" where
  "text_roundtrip s \<longleftrightarrow> isWellFormed s \<and> (case s of [] \<Rightarrow> True | u # rest \<Rightarrow> u \<noteq> 0xFEFF)"

definition backup_payload :: "'n json \<Rightarrow> bool" where
  "backup_payload v \<longleftrightarrow>
     (case v of
        JObj props \<Rightarrow> (case map_of props (js ''owner'') of
                         None \<Rightarrow> False
                       | Some owner \<Rightarrow> owner \<noteq> JNull)
      | _ \<Rightarrow> False)"

text \<open>
  The compositions the claims are about: decrypting what encryptMessage made, after a change to
  the bundle or none; unwrapping what encryptPrivateKey wrapped, under a second passphrase;
  decoding what encryptBackup wrote, under a second password.
\<close>

definition decrypt_tampered ::
    "'n platform \<Rightarrow> rng \<Rightarrow> jsstring \<Rightarrow> jsstring \<Rightarrow> jsstring \<Rightarrow>
     (message_bundle \<Rightarrow> message_bundle) \<Rightarrow> js_error + jsstring" where
  "decrypt_tampered P g plaintext publicKey privateKey tamper =
     (case encryptMessage P g plaintext publicKey of
        Inl e \<Rightarrow> Inl e
      | Inr (pkg, g') \<Rightarrow> decryptMessage P (tamper pkg) privateKey)"

definition message_roundtrip ::
    "'n platform \<Rightarrow> rng \<Rightarrow> jsstring \<Rightarrow> jsstring \<Rightarrow> jsstring \<Rightarrow> js_error + jsstring" where
  "message_roundtrip P g plaintext publicKey privateKey =
     decrypt_tampered P g plaintext publicKey privateKey (\<lambda>pkg. pkg)"

definition unwrap_wrapped ::
    "'n platform \<Rightarrow> rng \<Rightarrow> jsstring \<Rightarrow> jsstring \<Rightarrow> jsstring \<Rightarrow> js_error + jsstring" where
  "unwrap_wrapped P g privateKey passphrase passphrase' =
     (case encryptPrivateKey P g privateKey passphrase of
        Inl e \<Rightarrow> Inl e
      | Inr (pkg, g') \<Rightarrow> decryptPrivateKey P pkg passphrase')"

definition decode_encoded ::
    "'n platform \<Rightarrow> rng \<Rightarrow> jsstring \<Rightarrow> 'n json \<Rightarrow> jsstring \<Rightarrow> jsstring \<Rightarrow> js_error + 'n json" where
  "decode_encoded P g now payload password password' =
     (case encryptBackup P g now payload password of
        Inl e \<Rightarrow> Inl e
      | Inr (file, g') \<Rightarrow> decryptBackup P file password')"

text \<open>
  The symmetric key a bundle wraps, as its reader recovers it in the first step of
  decryptMessage; flipping bit j of element i of a string or byte sequence; and the fingerprint as
  the specification words it.
\<close>

definition wrapped_key :: "'n platform \<Rightarrow> message_bundle \<Rightarrow> jsstring \<Rightarrow> bytes option" where
  "wrapped_key P pkg privateKeyB64 =
     (case importPrivateKey P privateKeyB64 of Inl e \<Rightarrow> None | Inr privateKey \<Rightarrow>
      case base64ToArray (b_encKey pkg) of Inl e \<Rightarrow> None
      | Inr encAesKeyBytes \<Rightarrow> rsa_oaep_decrypt P privateKey encAesKeyBytes)"

definition flip_bit_at :: "nat \<Rightarrow> nat \<Rightarrow> 'a::len word list \<Rightarrow> 'a word list" where
  "flip_bit_at i j s = s[i := (s ! i) XOR push_bit j 1]"

definition upper_hex :: "code_unit \<Rightarrow> bool" where
  "upper_hex u \<longleftrightarrow> (48 \<le> unat u \<and> unat u \<le> 57) \<or> (65 \<le> unat u \<and> unat u \<le> 70)"

definition hex_upper_byte :: "byte \<Rightarrow> jsstring" where
  "hex_upper_byte b =
     [of_char (''0123456789ABCDEF'' ! (unat b div 16)), of_char (''0123456789ABCDEF'' ! (unat b mod 16))]"

fun blocks4 :: "jsstring \<Rightarrow> jsstring list" where
  "blocks4 (a # b # c # d # rest) = [a, b, c, d] # blocks4 rest"
| "blocks4 s = []"

definition fingerprint_format :: "bytes \<Rightarrow> jsstring" where
  "fingerprint_format hash = join [32] (blocks4 (concat (map hex_upper_byte hash)))"

definition demo_encKey :: bytes where
  "demo_encKey = draw demo_rng 0 32 @ draw demo_rng 44 32 @ demo_public [1, 2, 3]"


text \<open>
  For the two bundles of a sent message. The ciphertext of a text is within the argument limit
  whatever key and iv are drawn (with AES-GCM it has 16 bytes more than the plaintext). A bundle
  seals a text under a key when its ciphertext decodes to the text encrypted under that key and
  the iv of the bundle. The two calls of encryptMessage read 152 bytes of the random source
  between them, 76 each; the source does not repeat itself there when no two blocks of 32 bytes
  that do not overlap are equal. This is what the model keeps of the independence of two reads,
  which is a matter of probability: a uniform source returns the same 32 bytes to two reads once
  in two to the power 256.
\<close>

definition messages_fit :: "'n platform \<Rightarrow> jsstring \<Rightarrow> bool" where
  "messages_fit P text \<longleftrightarrow>
     (\<forall>key iv. length key = 32 \<and> length iv = 12 \<longrightarrow>
        within_argument_limit P (aes_gcm_encrypt P key iv (TextEncoder_encode text)))"

definition seals :: "'n platform \<Rightarrow> message_bundle \<Rightarrow> bytes \<Rightarrow> jsstring \<Rightarrow> bool" where
  "seals P pkg key text \<longleftrightarrow>
     (case base64ToArray (b_iv pkg) of Inl e \<Rightarrow> False | Inr iv \<Rightarrow>
      case base64ToArray (b_ciphertext pkg) of Inl e \<Rightarrow> False
      | Inr ciphertext \<Rightarrow> ciphertext = aes_gcm_encrypt P key iv (TextEncoder_encode text))"

definition no_repeated_block :: "rng \<Rightarrow> bool" where
  "no_repeated_block g \<longleftrightarrow> (\<forall>i j. i + 32 \<le> j \<and> j + 32 \<le> 152 \<longrightarrow> draw g i 32 \<noteq> draw g j 32)"

section \<open>Auxiliary definitions for the proofs\<close>

text \<open>
  Scalar values, and base64 split into the sextets of the data and the padding.
\<close>

definition scalar_value :: "nat \<Rightarrow> bool" where
  "scalar_value cp \<longleftrightarrow> cp < 0x110000 \<and> \<not> (0xD800 \<le> cp \<and> cp \<le> 0xDFFF)"

fun b64_sextets :: "nat list \<Rightarrow> nat list" where
  "b64_sextets [] = []"
| "b64_sextets [a] = [a div 4, a mod 4 * 16]"
| "b64_sextets [a, b] = [a div 4, a mod 4 * 16 + b div 16, b mod 16 * 4]"
| "b64_sextets (a # b # c # rest) =
     [a div 4, a mod 4 * 16 + b div 16, b mod 16 * 4 + c div 64, c mod 64] @ b64_sextets rest"

definition b64_padding :: "nat \<Rightarrow> jsstring" where
  "b64_padding n = (if n mod 3 = 1 then [61, 61] else if n mod 3 = 2 then [61] else [])"


text \<open>
  For the runs of two calls of encryptMessage: the bytes a call has read when it waits at a
  given await, and what holds of a call that has met no error, where \<open>off\<close> is the place of the
  random source at which the call read its key, once it has.
\<close>

fun used :: "encrypt_task \<Rightarrow> nat" where
  "used (AwaitImportKey plaintext spki) = 0"
| "used (AwaitGenerateKey plaintext pub) = 0"
| "used (AwaitExportKey plaintext pub aesKey) = 32"
| "used (AwaitEncrypt pub aesRaw iv msgBytes) = 44"
| "used (AwaitWrapKey pub aesRaw iv ciphertext) = 44"
| "used (Settled result) = 76"

fun awaits_left :: "encrypt_task \<Rightarrow> nat" where
  "awaits_left (AwaitImportKey plaintext spki) = 5"
| "awaits_left (AwaitGenerateKey plaintext pub) = 4"
| "awaits_left (AwaitExportKey plaintext pub aesKey) = 3"
| "awaits_left (AwaitEncrypt pub aesRaw iv msgBytes) = 2"
| "awaits_left (AwaitWrapKey pub aesRaw iv ciphertext) = 1"
| "awaits_left (Settled result) = 0"

fun task_inv ::
    "'n platform \<Rightarrow> jsstring \<Rightarrow> bytes \<Rightarrow> bytes \<Rightarrow> rng \<Rightarrow> nat option \<Rightarrow> encrypt_task \<Rightarrow> bool" where
  "task_inv P text pub priv g0 off (AwaitImportKey plaintext spki) \<longleftrightarrow>
     off = None \<and> plaintext = text \<and> spki = pub"
| "task_inv P text pub priv g0 off (AwaitGenerateKey plaintext k) \<longleftrightarrow>
     off = None \<and> plaintext = text \<and> k = pub"
| "task_inv P text pub priv g0 off (AwaitExportKey plaintext k aesKey) \<longleftrightarrow>
     plaintext = text \<and> k = pub \<and> (\<exists>i. off = Some i \<and> aesKey = draw g0 i 32)"
| "task_inv P text pub priv g0 off (AwaitEncrypt k aesRaw iv msgBytes) \<longleftrightarrow>
     k = pub \<and> (\<exists>i. off = Some i \<and> aesRaw = draw g0 i 32) \<and> length iv = 12
     \<and> msgBytes = TextEncoder_encode text"
| "task_inv P text pub priv g0 off (AwaitWrapKey k aesRaw iv ciphertext) \<longleftrightarrow>
     k = pub \<and> (\<exists>i. off = Some i \<and> aesRaw = draw g0 i 32) \<and> length iv = 12
     \<and> ciphertext = aes_gcm_encrypt P aesRaw iv (TextEncoder_encode text)"
| "task_inv P text pub priv g0 off (Settled result) \<longleftrightarrow>
     (case result of
        Inl e \<Rightarrow> False
      | Inr pkg \<Rightarrow>
          (\<exists>i encKey. off = Some i \<and> b_encKey pkg = base64_of encKey
             \<and> rsa_oaep_decrypt P priv encKey = Some (draw g0 i 32)
             \<and> seals P pkg (draw g0 i 32) text))"

definition pair_inv ::
    "'n platform \<Rightarrow> jsstring \<Rightarrow> bytes \<Rightarrow> bytes \<Rightarrow> bytes \<Rightarrow> bytes \<Rightarrow> rng \<Rightarrow>
     nat option \<Rightarrow> nat option \<Rightarrow> encrypt_task \<Rightarrow> encrypt_task \<Rightarrow> rng \<Rightarrow> bool" where
  "pair_inv P text pubA privA pubB privB g0 offA offB a b g \<longleftrightarrow>
     task_inv P text pubA privA g0 offA a \<and> task_inv P text pubB privB g0 offB b
     \<and> g = advance (used a + used b) g0
     \<and> (\<forall>i. offA = Some i \<longrightarrow> i + 32 \<le> used a + used b)
     \<and> (\<forall>j. offB = Some j \<longrightarrow> j + 32 \<le> used a + used b)
     \<and> (\<forall>i j. offA = Some i \<and> offB = Some j \<longrightarrow> i + 32 \<le> j \<or> j + 32 \<le> i)"

section \<open>TextDecoder after TextEncoder\<close>

lemma unat_byte: "n < 256 \<Longrightarrow> unat (of_nat n :: byte) = n"
  by (simp add: unat_of_nat)



lemma decode_Cons:
  "utf8_step d (unat b) = (out, d') \<Longrightarrow> utf8_decode d (b # bs) = out @ utf8_decode d' bs"
  by simp

lemma split3: "cp = (cp div 4096 * 64 + cp div 64 mod 64) * 64 + cp mod 64" for cp :: nat
proof -
  have "cp div 4096 = cp div 64 div 64" by (simp add: div_mult2_eq [symmetric])
  then show ?thesis by simp
qed

lemma split4:
  "cp = ((cp div 262144 * 64 + cp div 4096 mod 64) * 64 + cp div 64 mod 64) * 64 + cp mod 64"
  for cp :: nat
proof -
  have "cp div 262144 = cp div 64 div 64 div 64" by (simp add: div_mult2_eq [symmetric])
  moreover have "cp div 4096 = cp div 64 div 64" by (simp add: div_mult2_eq [symmetric])
  ultimately show ?thesis by simp
qed

lemma decode_scalar1:
  assumes "cp < 0x80"
  shows "utf8_decode utf8_reset (utf8_bytes cp @ rest) = cp # utf8_decode utf8_reset rest"
proof -
  define B1 :: byte where "B1 = of_nat cp"
  have b1: "unat B1 = cp" unfolding B1_def by (rule unat_byte) (use assms in simp)
  have enc: "utf8_bytes cp = [B1]" using assms by (simp add: utf8_bytes_def B1_def)
  have s1: "utf8_step utf8_reset (unat B1) = ([cp], utf8_reset)"
    using assms by (simp add: b1 utf8_step_def utf8_lead_def utf8_reset_def)
  show ?thesis unfolding enc by (simp only: append_Cons append_Nil decode_Cons [OF s1])
qed

lemma decode_scalar2:
  assumes "0x80 \<le> cp" "cp < 0x800"
  shows "utf8_decode utf8_reset (utf8_bytes cp @ rest) = cp # utf8_decode utf8_reset rest"
proof -
  define q r where "q = cp div 64" and "r = cp mod 64"
  have cp: "cp = q * 64 + r" and r: "r < 64" by (simp_all add: q_def r_def)
  from assms cp r have q: "2 \<le> q" "q < 32" by linarith+
  define B1 B2 :: byte where "B1 = of_nat (192 + q)" and "B2 = of_nat (128 + r)"
  have b1: "unat B1 = 192 + q" unfolding B1_def by (rule unat_byte) (use q in simp)
  have b2: "unat B2 = 128 + r" unfolding B2_def by (rule unat_byte) (use r in simp)
  have m1: "(192 + q) mod 32 = q" using q by (simp add: mod_if)
  have m2: "(128 + r) mod 64 = r" using r by (simp add: mod_if)
  have enc: "utf8_bytes cp = [B1, B2]"
    using assms by (simp add: utf8_bytes_def q_def r_def B1_def B2_def)
  define d1 where "d1 = utf8_reset\<lparr>bytes_needed := 1, code_point := q\<rparr>"
  have s1: "utf8_step utf8_reset (unat B1) = ([], d1)"
    using q by (simp add: b1 d1_def utf8_step_def utf8_lead_def utf8_reset_def m1)
  have s2: "utf8_step d1 (unat B2) = ([cp], utf8_reset)"
    using r by (simp add: b2 d1_def utf8_step_def utf8_reset_def m2 cp)
  show ?thesis unfolding enc
    by (simp only: append_Cons append_Nil decode_Cons [OF s1] decode_Cons [OF s2])
qed

lemma decode_scalar3:
  assumes "0x800 \<le> cp" "cp < 0x10000" "\<not> (0xD800 \<le> cp \<and> cp \<le> 0xDFFF)"
  shows "utf8_decode utf8_reset (utf8_bytes cp @ rest) = cp # utf8_decode utf8_reset rest"
proof -
  define p q r where "p = cp div 4096" and "q = cp div 64 mod 64" and "r = cp mod 64"
  have r: "r < 64" and q: "q < 64" by (simp_all add: q_def r_def)
  have cp: "cp = (p * 64 + q) * 64 + r"
    unfolding p_def q_def r_def by (rule split3)
  have lin: "cp = p * 4096 + q * 64 + r" using cp by simp
  have p16: "p < 16" using assms lin r q by linarith
  have p0: "p = 0 \<longrightarrow> 32 \<le> q" using assms lin r q by linarith
  have p13: "p = 13 \<longrightarrow> q < 32" using assms lin r q by linarith
  define B1 B2 B3 :: byte where "B1 = of_nat (224 + p)" and "B2 = of_nat (128 + q)"
    and "B3 = of_nat (128 + r)"
  have b1: "unat B1 = 224 + p" unfolding B1_def by (rule unat_byte) (use p16 in simp)
  have b2: "unat B2 = 128 + q" unfolding B2_def by (rule unat_byte) (use q in simp)
  have b3: "unat B3 = 128 + r" unfolding B3_def by (rule unat_byte) (use r in simp)
  have m1: "(224 + p) mod 16 = p" using p16 by (simp add: mod_if)
  have m2: "(128 + q) mod 64 = q" using q by (simp add: mod_if)
  have m3: "(128 + r) mod 64 = r" using r by (simp add: mod_if)
  have enc: "utf8_bytes cp = [B1, B2, B3]"
    using assms by (simp add: utf8_bytes_def p_def q_def r_def B1_def B2_def B3_def)
  define d1 where "d1 = \<lparr>code_point = p, bytes_seen = 0, bytes_needed = 2,
            lower_boundary = (if p = 0 then 0xA0 else 0x80),
            upper_boundary = (if p = 13 then 0x9F else 0xBF)\<rparr>"
  define d2 where "d2 = \<lparr>code_point = p * 64 + q, bytes_seen = 1, bytes_needed = 2,
            lower_boundary = 0x80, upper_boundary = 0xBF\<rparr>"
  have s1: "utf8_step utf8_reset (unat B1) = ([], d1)"
    using p16 by (simp add: b1 d1_def utf8_step_def utf8_lead_def utf8_reset_def m1)
  have s2: "utf8_step d1 (unat B2) = ([], d2)"
    using p16 p0 p13 q by (auto simp add: b2 d1_def d2_def utf8_step_def m2)
  have s3: "utf8_step d2 (unat B3) = ([cp], utf8_reset)"
    using r by (simp add: b3 d2_def utf8_step_def m3 cp)
  show ?thesis unfolding enc
    by (simp only: append_Cons append_Nil decode_Cons [OF s1] decode_Cons [OF s2]
        decode_Cons [OF s3])
qed

lemma decode_scalar4:
  assumes "0x10000 \<le> cp" "cp < 0x110000"
  shows "utf8_decode utf8_reset (utf8_bytes cp @ rest) = cp # utf8_decode utf8_reset rest"
proof -
  define o' p q r where "o' = cp div 262144" and "p = cp div 4096 mod 64"
    and "q = cp div 64 mod 64" and "r = cp mod 64"
  have r: "r < 64" and q: "q < 64" and p: "p < 64" by (simp_all add: p_def q_def r_def)
  have cp: "cp = ((o' * 64 + p) * 64 + q) * 64 + r"
    unfolding o'_def p_def q_def r_def by (rule split4)
  have lin: "cp = o' * 262144 + p * 4096 + q * 64 + r" using cp by simp
  have o5: "o' < 5" using assms lin r q p by linarith
  have o0: "o' = 0 \<longrightarrow> 16 \<le> p" using assms lin r q p by linarith
  have o4: "o' = 4 \<longrightarrow> p < 16" using assms lin r q p by linarith
  define B1 B2 B3 B4 :: byte where "B1 = of_nat (240 + o')" and "B2 = of_nat (128 + p)"
    and "B3 = of_nat (128 + q)" and "B4 = of_nat (128 + r)"
  have b1: "unat B1 = 240 + o'" unfolding B1_def by (rule unat_byte) (use o5 in simp)
  have b2: "unat B2 = 128 + p" unfolding B2_def by (rule unat_byte) (use p in simp)
  have b3: "unat B3 = 128 + q" unfolding B3_def by (rule unat_byte) (use q in simp)
  have b4: "unat B4 = 128 + r" unfolding B4_def by (rule unat_byte) (use r in simp)
  have m1: "(240 + o') mod 8 = o'" using o5 by (simp add: mod_if)
  have m2: "(128 + p) mod 64 = p" using p by (simp add: mod_if)
  have m3: "(128 + q) mod 64 = q" using q by (simp add: mod_if)
  have m4: "(128 + r) mod 64 = r" using r by (simp add: mod_if)
  have enc: "utf8_bytes cp = [B1, B2, B3, B4]"
    using assms by (simp add: utf8_bytes_def o'_def p_def q_def r_def B1_def B2_def B3_def B4_def)
  define d1 where "d1 = \<lparr>code_point = o', bytes_seen = 0, bytes_needed = 3,
            lower_boundary = (if o' = 0 then 0x90 else 0x80),
            upper_boundary = (if o' = 4 then 0x8F else 0xBF)\<rparr>"
  define d2 where "d2 = \<lparr>code_point = o' * 64 + p, bytes_seen = 1, bytes_needed = 3,
            lower_boundary = 0x80, upper_boundary = 0xBF\<rparr>"
  define d3 where "d3 = \<lparr>code_point = (o' * 64 + p) * 64 + q, bytes_seen = 2, bytes_needed = 3,
            lower_boundary = 0x80, upper_boundary = 0xBF\<rparr>"
  have s1: "utf8_step utf8_reset (unat B1) = ([], d1)"
    using o5 by (simp add: b1 d1_def utf8_step_def utf8_lead_def utf8_reset_def m1)
  have s2: "utf8_step d1 (unat B2) = ([], d2)"
    using o5 o0 o4 p by (auto simp add: b2 d1_def d2_def utf8_step_def m2)
  have s3: "utf8_step d2 (unat B3) = ([], d3)"
    using q by (simp add: b3 d2_def d3_def utf8_step_def m3)
  have s4: "utf8_step d3 (unat B4) = ([cp], utf8_reset)"
    using r by (simp add: b4 d3_def utf8_step_def m4 cp)
  show ?thesis unfolding enc
    by (simp only: append_Cons append_Nil decode_Cons [OF s1] decode_Cons [OF s2]
        decode_Cons [OF s3] decode_Cons [OF s4])
qed

lemma decode_scalar:
  assumes "scalar_value cp"
  shows "utf8_decode utf8_reset (utf8_bytes cp @ rest) = cp # utf8_decode utf8_reset rest"
proof -
  consider "cp < 0x80" | "0x80 \<le> cp" "cp < 0x800" | "0x800 \<le> cp" "cp < 0x10000"
    | "0x10000 \<le> cp" by linarith
  then show ?thesis
  proof cases
    case 1 then show ?thesis by (rule decode_scalar1)
  next
    case 2 then show ?thesis by (rule decode_scalar2)
  next
    case 3 with assms show ?thesis by (intro decode_scalar3) (simp_all add: scalar_value_def)
  next
    case 4 with assms show ?thesis by (intro decode_scalar4) (simp_all add: scalar_value_def)
  qed
qed

lemma decode_scalars:
  "\<forall>cp \<in> set cps. scalar_value cp \<Longrightarrow>
   utf8_decode utf8_reset (concat (map utf8_bytes cps) @ rest) = cps @ utf8_decode utf8_reset rest"
  by (induction cps) (simp_all add: decode_scalar)

lemma code_unit_bound: "unat (u :: code_unit) < 65536"
  using unsigned_less [of u, where ?'a = nat] by simp

lemma usv_scalars_valid: "\<forall>cp \<in> set (usv_scalars s). scalar_value cp"
proof (induction s rule: usv_scalars.induct)
  case 1 show ?case by simp
next
  case (2 u)
  show ?case using code_unit_bound [of u]
    by (auto simp add: scalar_value_def is_high_surrogate_def is_low_surrogate_def)
next
  case (3 u v rest)
  have pair: "scalar_value (0x10000 + (unat u - 0xD800) * 0x400 + (unat v - 0xDC00))"
    if "is_high_surrogate (unat u)" "is_low_surrogate (unat v)"
    using that unfolding scalar_value_def is_high_surrogate_def is_low_surrogate_def by linarith
  have single: "scalar_value (unat u)"
    if "\<not> is_high_surrogate (unat u)" "\<not> is_low_surrogate (unat u)"
    using that code_unit_bound [of u]
    unfolding scalar_value_def is_high_surrogate_def is_low_surrogate_def by linarith
  have fffd: "scalar_value 0xFFFD" by (simp add: scalar_value_def)
  show ?case using 3 pair single fffd by simp
qed

lemma utf8_decode_encode: "utf8_decode utf8_reset (TextEncoder_encode s) = usv_scalars s"
  using decode_scalars [OF usv_scalars_valid, of s "[]"]
  by (simp add: TextEncoder_encode_def utf8_reset_def)


lemma TextDecoder_TextEncoder:
  "TextDecoder_decode (TextEncoder_encode s) = concat (map utf16_units (strip_bom (usv_scalars s)))"
  by (simp add: TextDecoder_decode_def utf8_decode_encode)

lemma utf16_units_plain: "unat u < 0x10000 \<Longrightarrow> utf16_units (unat u) = [u]"
  by (simp add: utf16_units_def)

lemma utf16_units_pair:
  assumes "is_high_surrogate (unat u)" "is_low_surrogate (unat v)"
  shows "utf16_units (0x10000 + (unat u - 0xD800) * 0x400 + (unat v - 0xDC00)) = [u, v]"
proof -
  define h l where "h = unat u - 0xD800" and "l = unat v - 0xDC00"
  have u: "unat u = 0xD800 + h" and v: "unat v = 0xDC00 + l" and l: "l < 0x400"
    using assms by (auto simp add: h_def l_def is_high_surrogate_def is_low_surrogate_def)
  have d: "(h * 0x400 + l) div 0x400 = h" and m: "(h * 0x400 + l) mod 0x400 = l"
    using l by simp_all
  have "of_nat (0xD800 + h) = u" "of_nat (0xDC00 + l) = v"
    unfolding u [symmetric] v [symmetric] by simp_all
  then show ?thesis
    unfolding utf16_units_def h_def [symmetric] l_def [symmetric] using d m by simp
qed

lemma utf16_usv_scalars: "isWellFormed s \<Longrightarrow> concat (map utf16_units (usv_scalars s)) = s"
proof (induction s rule: usv_scalars.induct)
  case 1 show ?case by simp
next
  case (2 u)
  then show ?case using code_unit_bound [of u] by (simp add: utf16_units_plain)
next
  case (3 u v rest)
  show ?case
  proof (cases "is_high_surrogate (unat u)")
    case True
    with 3 show ?thesis by (simp add: utf16_units_pair)
  next
    case False
    with 3 show ?thesis using code_unit_bound [of u] by (simp add: utf16_units_plain)
  qed
qed

lemma unat_bom: "unat (u :: code_unit) = 0xFEFF \<longleftrightarrow> u = 0xFEFF"
proof -
  have "unat (0xFEFF :: code_unit) = 0xFEFF" by simp
  then show ?thesis by (metis word_unat_eq_iff)
qed

lemma usv_scalars_hd:
  "isWellFormed s \<Longrightarrow> s \<noteq> [] \<Longrightarrow> hd s \<noteq> 0xFEFF \<Longrightarrow>
   usv_scalars s \<noteq> [] \<and> hd (usv_scalars s) \<noteq> 0xFEFF"
proof (induction s rule: usv_scalars.induct)
  case 1 then show ?case by simp
next
  case (2 u)
  then show ?case by (simp add: unat_bom)
next
  case (3 u v rest)
  from "3.prems" have "unat u \<noteq> 0xFEFF" by (simp add: unat_bom)
  then show ?case by (simp add: is_high_surrogate_def is_low_surrogate_def)
qed

lemma TextDecoder_TextEncoder_id:
  assumes "text_roundtrip s"
  shows "TextDecoder_decode (TextEncoder_encode s) = s"
proof (cases s)
  case Nil
  then show ?thesis by (simp add: TextDecoder_TextEncoder strip_bom_def)
next
  case (Cons u rest)
  with assms have wf: "isWellFormed s" and ne: "s \<noteq> []" and hd: "hd s \<noteq> 0xFEFF"
    by (simp_all add: text_roundtrip_def)
  from usv_scalars_hd [OF wf ne hd] have "strip_bom (usv_scalars s) = usv_scalars s"
    by (cases "usv_scalars s") (simp_all add: strip_bom_def)
  then show ?thesis by (simp add: TextDecoder_TextEncoder utf16_usv_scalars [OF wf])
qed

lemma ascii_isWellFormed: "\<forall>u \<in> set s. unat u < 0x80 \<Longrightarrow> isWellFormed s"
  by (induction s rule: isWellFormed.induct)
     (auto simp add: is_high_surrogate_def is_low_surrogate_def)

lemma ascii_text_roundtrip:
  assumes "\<forall>u \<in> set s. unat u < 0x80"
  shows "text_roundtrip s"
proof (cases s)
  case Nil
  then show ?thesis by (simp add: text_roundtrip_def)
next
  case (Cons u rest)
  with assms have "unat u \<noteq> 0xFEFF" by auto
  then have "u \<noteq> 0xFEFF" by (simp add: unat_bom)
  with Cons ascii_isWellFormed [OF assms] show ?thesis by (simp add: text_roundtrip_def)
qed


section \<open>atob after btoa\<close>

lemma btoa_bytes_sextets:
  "btoa_bytes xs = map b64_char (b64_sextets xs) @ b64_padding (length xs)"
  by (induction xs rule: btoa_bytes.induct) (simp_all add: b64_padding_def)

lemma b64_sextets_bound:
  "\<forall>x \<in> set xs. x < 256 \<Longrightarrow> \<forall>s \<in> set (b64_sextets xs). s < 64"
  by (induction xs rule: b64_sextets.induct) (auto simp add: less_mult_imp_div_less)

lemma b64_sextets_length:
  "length (b64_sextets xs) mod 4 =
     (if length xs mod 3 = 1 then 2 else if length xs mod 3 = 2 then 3 else 0)"
  by (induction xs rule: b64_sextets.induct) simp_all

lemma b64_bytes_sextets: "\<forall>x \<in> set xs. x < 256 \<Longrightarrow> b64_bytes (b64_sextets xs) = xs"
proof (induction xs rule: b64_sextets.induct)
  case 1 show ?case by simp
next
  case (2 a) show ?case by simp
next
  case (3 a b)
  then have "b div 16 < 16" by (simp add: less_mult_imp_div_less)
  then show ?case by simp
next
  case (4 a b c rest)
  then have "b div 16 < 16" "c div 64 < 4" "c mod 64 < 64"
    by (simp_all add: less_mult_imp_div_less)
  with 4 show ?case by simp
qed


lemma unat_code_unit: "n < 65536 \<Longrightarrow> unat (of_nat n :: code_unit) = n"
  by (simp add: unat_of_nat)

lemma b64_char_unat:
  assumes "n < 64"
  shows "unat (b64_char n) =
     (if n < 26 then 65 + n else if n < 52 then 71 + n else if n < 62 then n - 4
      else if n = 62 then 43 else 47)"
  unfolding b64_char_def by (rule unat_code_unit) (use assms in auto)

lemma b64_value_char: "n < 64 \<Longrightarrow> b64_value (b64_char n) = Some n"
  by (auto simp add: b64_value_def b64_char_unat Let_def)

lemma b64_char_range:
  "n < 64 \<Longrightarrow> 43 \<le> unat (b64_char n) \<and> unat (b64_char n) \<le> 122 \<and> unat (b64_char n) \<noteq> 61"
  by (auto simp add: b64_char_unat)

lemma b64_char_not_pad: "n < 64 \<Longrightarrow> b64_char n \<noteq> 61"
  using b64_char_range [of n] by auto

lemma b64_char_not_space: "n < 64 \<Longrightarrow> \<not> ascii_whitespace (b64_char n)"
  using b64_char_range [of n] by (auto simp add: ascii_whitespace_def)

lemma those_b64_value:
  "\<forall>s \<in> set ss. s < 64 \<Longrightarrow> those (map (b64_value \<circ> b64_char) ss) = Some ss"
  by (induction ss) (simp_all add: b64_value_char)

lemma strip_padding_none:
  assumes "cs = [] \<or> last cs \<noteq> 61"
  shows "strip_padding cs = cs"
proof (cases "rev cs")
  case Nil then show ?thesis by (simp add: strip_padding_def)
next
  case (Cons x xs)
  then have "cs = rev xs @ [x]" by (metis rev_rev_ident rev.simps(2))
  with assms have "x \<noteq> 61" by simp
  with Cons show ?thesis by (simp add: strip_padding_def split: list.splits)
qed

lemma strip_padding_one:
  assumes "length cs mod 4 = 3" "last cs \<noteq> 61"
  shows "strip_padding (cs @ [61]) = cs"
proof (cases "rev cs")
  case Nil with assms show ?thesis by simp
next
  case (Cons x xs)
  then have cs: "cs = rev xs @ [x]" by (metis rev_rev_ident rev.simps(2))
  with assms have x: "x \<noteq> 61" by simp
  have "length (cs @ [61]) mod 4 = 0" using assms(1) by (simp add: mod_Suc)
  then show ?thesis using x unfolding strip_padding_def cs by simp
qed

lemma strip_padding_two:
  assumes "length cs mod 4 = 2"
  shows "strip_padding (cs @ [61, 61]) = cs"
proof -
  have "length (cs @ [61, 61]) mod 4 = 0" using assms by (simp add: mod_Suc)
  then show ?thesis unfolding strip_padding_def by simp
qed

lemma last_map_b64_char:
  "\<forall>s \<in> set ss. s < 64 \<Longrightarrow> ss \<noteq> [] \<Longrightarrow> last (map b64_char ss) \<noteq> 61"
  by (simp add: last_map b64_char_not_pad)

lemma strip_padding_btoa:
  assumes "\<forall>x \<in> set xs. x < 256"
  shows "strip_padding (btoa_bytes xs) = map b64_char (b64_sextets xs)"
proof -
  let ?ss = "b64_sextets xs"
  have bound: "\<forall>s \<in> set ?ss. s < 64" using assms by (rule b64_sextets_bound)
  have len: "length (map b64_char ?ss) mod 4 =
      (if length xs mod 3 = 1 then 2 else if length xs mod 3 = 2 then 3 else 0)"
    by (simp add: b64_sextets_length)
  consider "length xs mod 3 = 1" | "length xs mod 3 = 2" | "length xs mod 3 = 0" by linarith
  then show ?thesis
  proof cases
    case 1
    with len have "length (map b64_char ?ss) mod 4 = 2" by simp
    from strip_padding_two [OF this] 1 show ?thesis
      by (simp add: btoa_bytes_sextets b64_padding_def)
  next
    case 2
    with len have l: "length (map b64_char ?ss) mod 4 = 3" by simp
    then have "?ss \<noteq> []" by auto
    from strip_padding_one [OF l last_map_b64_char [OF bound this]] 2 show ?thesis
      by (simp add: btoa_bytes_sextets b64_padding_def)
  next
    case 3
    have "map b64_char ?ss = [] \<or> last (map b64_char ?ss) \<noteq> 61"
      using last_map_b64_char [OF bound] by auto
    from strip_padding_none [OF this] 3 show ?thesis
      by (simp add: btoa_bytes_sextets b64_padding_def)
  qed
qed

lemma btoa_bytes_no_space:
  "\<forall>x \<in> set xs. x < 256 \<Longrightarrow> filter (\<lambda>u. \<not> ascii_whitespace u) (btoa_bytes xs) = btoa_bytes xs"
proof -
  assume "\<forall>x \<in> set xs. x < 256"
  then have "\<forall>s \<in> set (b64_sextets xs). s < 64" by (rule b64_sextets_bound)
  then have "\<forall>u \<in> set (map b64_char (b64_sextets xs)). \<not> ascii_whitespace u"
    by (auto simp add: b64_char_not_space)
  moreover have "\<forall>u \<in> set (b64_padding (length xs)). \<not> ascii_whitespace u"
    by (simp add: b64_padding_def ascii_whitespace_def)
  ultimately show ?thesis
    unfolding btoa_bytes_sextets by (simp add: filter_id_conv)
qed

lemma atob_btoa_bytes:
  assumes "\<forall>x \<in> set xs. x < 256"
  shows "atob (btoa_bytes xs) = Inr (map of_nat xs)"
proof -
  let ?ss = "b64_sextets xs"
  have bound: "\<forall>s \<in> set ?ss. s < 64" using assms by (rule b64_sextets_bound)
  have "length (map b64_char ?ss) mod 4 \<noteq> 1" by (simp add: b64_sextets_length)
  then show ?thesis
    unfolding atob_def
    by (simp add: btoa_bytes_no_space [OF assms] strip_padding_btoa [OF assms] Let_def
        those_b64_value [OF bound] b64_bytes_sextets [OF assms])
qed

lemma unat_byte_bound: "unat (b :: byte) < 256"
  using unsigned_less [of b, where ?'a = nat] by simp


lemma ucast_byte_code_unit: "ucast (ucast b :: code_unit) = (b :: byte)"
  by (rule ucast_up_ucast_id) (simp add: is_up)

theorem base64_roundtrip: "base64ToArray (base64_of bs) = Inr bs"
proof -
  have "\<forall>x \<in> set (map unat bs). x < 256" by (simp add: unat_byte_bound)
  from atob_btoa_bytes [OF this] show ?thesis
    by (simp add: base64ToArray_def base64_of_def comp_def ucast_byte_code_unit)
qed


section \<open>The random source\<close>

lemma advance_advance: "advance m (advance n g) = advance (n + m) g"
  by (simp add: advance_def add.assoc)

lemma draw_zero: "map g [0..<m] = draw g 0 m"
  by (simp add: draw_def)

lemma length_draw: "length (draw g off n) = n"
  by (simp add: draw_def)

lemma getRandomValues_first: "getRandomValues n g = (draw g 0 n, advance n g)"
  by (simp add: getRandomValues_def draw_zero)

lemma draw_of_advance: "draw (advance off g) off' n = draw g (off + off') n"
  by (simp add: draw_def advance_def list_eq_iff_nth_eq add_ac)

section \<open>arrayToBase64 and the argument limit\<close>

lemma arrayToBase64_eq:
  "arrayToBase64 P buffer =
     (if within_argument_limit P buffer then Inr (base64_of buffer) else Inl RangeError)"
  by (simp add: arrayToBase64_def within_argument_limit_def not_less)

lemma arrayToBase64_fits:
  "within_argument_limit P buffer \<Longrightarrow> arrayToBase64 P buffer = Inr (base64_of buffer)"
  by (simp add: arrayToBase64_eq)

lemma arrayToBase64_Inr:
  "arrayToBase64 P buffer = Inr s \<longleftrightarrow> within_argument_limit P buffer \<and> s = base64_of buffer"
  by (auto simp add: arrayToBase64_eq)

lemma arrayToBase64_Inl:
  "arrayToBase64 P buffer = Inl e \<longleftrightarrow> \<not> within_argument_limit P buffer \<and> e = RangeError"
  by (auto simp add: arrayToBase64_eq)

lemma small_draw_fits:
  "16 \<le> argument_limit P \<Longrightarrow> n \<le> 16 \<Longrightarrow> within_argument_limit P (draw g off n)"
  by (simp add: within_argument_limit_def length_draw)

section \<open>Private-key envelopes\<close>

lemma encryptPrivateKey_eq:
  "encryptPrivateKey P g privateKeyB64 passphrase =
     (if within_argument_limit P
           (aes_gcm_encrypt P (deriveKey P passphrase (draw g 0 16)) (draw g 16 12)
              (TextEncoder_encode privateKeyB64))
         \<and> 16 \<le> argument_limit P
      then Inr (\<lparr>env_ct = base64_of (aes_gcm_encrypt P (deriveKey P passphrase (draw g 0 16))
                            (draw g 16 12) (TextEncoder_encode privateKeyB64)),
                  env_salt = base64_of (draw g 0 16),
                  env_iv = base64_of (draw g 16 12)\<rparr>, advance 28 g)
      else Inl RangeError)"
  by (simp add: encryptPrivateKey_def getRandomValues_first draw_of_advance advance_advance Let_def
      arrayToBase64_eq within_argument_limit_def length_draw)

lemma unwrap_wrapped_eq:
  assumes "within_argument_limit P
             (aes_gcm_encrypt P (deriveKey P passphrase (draw g 0 16)) (draw g 16 12)
                (TextEncoder_encode privateKeyB64))"
    and "16 \<le> argument_limit P"
  shows "unwrap_wrapped P g privateKeyB64 passphrase passphrase' =
     (case aes_gcm_decrypt P (deriveKey P passphrase' (draw g 0 16)) (draw g 16 12)
             (aes_gcm_encrypt P (deriveKey P passphrase (draw g 0 16)) (draw g 16 12)
                (TextEncoder_encode privateKeyB64)) of
        None \<Rightarrow> Inl OperationError
      | Some plain \<Rightarrow> Inr (TextDecoder_decode plain))"
  using assms
  by (simp add: unwrap_wrapped_def encryptPrivateKey_eq decryptPrivateKey_def base64_roundtrip)

lemma unwrap_too_long:
  assumes "\<not> within_argument_limit P
             (aes_gcm_encrypt P (deriveKey P passphrase (draw g 0 16)) (draw g 16 12)
                (TextEncoder_encode privateKeyB64))"
  shows "unwrap_wrapped P g privateKeyB64 passphrase passphrase' = Inl RangeError"
  using assms by (simp add: unwrap_wrapped_def encryptPrivateKey_eq)

lemma unwrap_same_passphrase:
  assumes "aes_gcm_correct P"
    and "within_argument_limit P
             (aes_gcm_encrypt P (deriveKey P passphrase (draw g 0 16)) (draw g 16 12)
                (TextEncoder_encode privateKeyB64))"
    and "16 \<le> argument_limit P"
  shows "unwrap_wrapped P g privateKeyB64 passphrase passphrase =
           Inr (TextDecoder_decode (TextEncoder_encode privateKeyB64))"
  using assms by (simp add: unwrap_wrapped_eq aes_gcm_correct_def)

section \<open>The transparent platform meets the contracts\<close>

lemma demo_aes_decrypt_encrypt: "demo_aes_decrypt k iv (demo_aes_encrypt k iv pt) = Some pt"
  by (simp add: demo_aes_decrypt_def demo_aes_encrypt_def)

lemma demo_aes_correct: "aes_gcm_correct (demo_platform book)"
  by (simp add: aes_gcm_correct_def demo_platform_def demo_aes_decrypt_encrypt)

lemma demo_aes_other_key:
  assumes "length k' = length k" "k' \<noteq> k"
  shows "demo_aes_decrypt k' iv (demo_aes_encrypt k iv pt) = None"
  using assms by (simp add: demo_aes_decrypt_def demo_aes_encrypt_def)

lemma demo_aes_other_iv:
  assumes "length iv' = length iv" "iv' \<noteq> iv"
  shows "demo_aes_decrypt k iv' (demo_aes_encrypt k iv pt) = None"
  using assms by (simp add: demo_aes_decrypt_def demo_aes_encrypt_def)

lemma demo_rsa_decrypt_encrypt:
  assumes "length seed = 32" "length m \<le> 190"
  shows "demo_rsa_encrypt (demo_public priv) seed m = Some (m @ seed @ demo_public priv)"
    and "demo_rsa_decrypt priv (m @ seed @ demo_public priv) = Some m"
  using assms by (simp_all add: demo_rsa_decrypt_def demo_rsa_encrypt_def demo_public_def)

lemma demo_argument_limit: "argument_limit (demo_platform book) = 65535"
  by (simp add: demo_platform_def)

lemma demo_within_limit:
  "within_argument_limit (demo_platform book) buffer \<longleftrightarrow> length buffer \<le> 65535"
  by (simp add: within_argument_limit_def demo_platform_def)

lemma demo_aes_length:
  "length (aes_gcm_encrypt (demo_platform book) k iv pt) = length pt + length k + length iv"
  by (simp add: demo_platform_def demo_aes_encrypt_def)

lemma demo_small_buffers_fit: "small_buffers_fit (demo_platform book)"
  by (auto simp add: small_buffers_fit_def demo_platform_def within_argument_limit_def
      demo_rsa_encrypt_def split: if_splits)

lemma demo_rsa_key_pair:
  assumes "priv \<noteq> []" and "length priv \<le> 1024"
  shows "rsa_key_pair (demo_platform book) (demo_public priv) priv"
proof -
  have "spki_valid (demo_platform book) (demo_public priv)"
    and "pkcs8_valid (demo_platform book) priv"
    using assms by (simp_all add: demo_platform_def demo_public_def)
  moreover have "rsa_oaep_encrypt (demo_platform book) = demo_rsa_encrypt"
    and "rsa_oaep_decrypt (demo_platform book) = demo_rsa_decrypt"
    by (simp_all add: demo_platform_def)
  ultimately show ?thesis
    by (simp add: rsa_key_pair_def demo_rsa_decrypt_encrypt)
qed

lemma demo_valid_key_pair:
  assumes "priv \<noteq> []" and "length priv \<le> 1024"
  shows "valid_key_pair (demo_platform book) (base64_of (demo_public priv)) (base64_of priv)"
  using demo_rsa_key_pair [OF assms] by (simp add: valid_key_pair_def base64_roundtrip)

lemma length_demo_stretch: "length (demo_stretch n bs) = n"
  by (simp add: demo_stretch_def)

lemma demo_sha256_length: "sha256_length (demo_platform book)"
  by (simp add: sha256_length_def demo_platform_def length_demo_stretch)

lemma demo_deriveKey:
  "deriveKey (demo_platform book) passphrase salt = demo_stretch 32 (TextEncoder_encode passphrase @ salt)"
  by (simp add: deriveKey_def demo_platform_def)

lemma demo_deriveBackupKey:
  "deriveBackupKey (demo_platform book) password salt =
     demo_stretch 32 (TextEncoder_encode password @ salt)"
  by (simp add: deriveBackupKey_def demo_platform_def)


section \<open>Wrapping and unwrapping the private key\<close>

lemma btoa_bytes_ascii:
  assumes "\<forall>x \<in> set xs. x < 256"
  shows "\<forall>u \<in> set (btoa_bytes xs). unat u < 0x80"
proof -
  have "\<forall>s \<in> set (b64_sextets xs). s < 64" using assms by (rule b64_sextets_bound)
  then have "\<forall>u \<in> set (map b64_char (b64_sextets xs)). unat u < 0x80"
    using b64_char_range by fastforce
  moreover have "\<forall>u \<in> set (b64_padding (length xs)). unat u < 0x80"
    by (simp add: b64_padding_def)
  ultimately show ?thesis unfolding btoa_bytes_sextets by auto
qed

lemma base64_of_text_roundtrip: "text_roundtrip (base64_of bs)"
proof -
  have "\<forall>x \<in> set (map unat bs). x < 256" by (simp add: unat_byte_bound)
  then show ?thesis
    unfolding base64_of_def by (intro ascii_text_roundtrip btoa_bytes_ascii)
qed

text \<open>
  Claim C2, as amended. For a private key whose envelope the engine can encode (the sealed key,
  the 16-byte salt and the iv are within the argument limit, as they are for every RSA key):
  unwrapping the envelope with the passphrase that wrapped it returns the private key whenever
  the key string survives UTF-8 encoding and decoding, which every key that arrayToBase64
  exported does. Unwrapping with another passphrase fails with OperationError whenever AES-GCM
  rejects the envelope's ciphertext under the key derived from that passphrase, and behaves as
  the original passphrase does whenever the other passphrase derives the same key.
\<close>

theorem unwrap_private_key:
  assumes "aes_gcm_correct P"
    and "16 \<le> argument_limit P"
    and "within_argument_limit P
           (aes_gcm_encrypt P (deriveKey P passphrase (draw g 0 16)) (draw g 16 12)
              (TextEncoder_encode privateKey))"
  shows "(text_roundtrip privateKey \<longrightarrow>
            unwrap_wrapped P g privateKey passphrase passphrase = Inr privateKey)
       \<and> (\<forall>exported.
            arrayToBase64 P pkcs8 = Inr exported
            \<and> within_argument_limit P
                 (aes_gcm_encrypt P (deriveKey P passphrase (draw g 0 16)) (draw g 16 12)
                    (TextEncoder_encode exported)) \<longrightarrow>
            unwrap_wrapped P g exported passphrase passphrase = Inr exported)
       \<and> (aes_gcm_decrypt P (deriveKey P other (draw g 0 16)) (draw g 16 12)
             (aes_gcm_encrypt P (deriveKey P passphrase (draw g 0 16)) (draw g 16 12)
                (TextEncoder_encode privateKey)) = None \<longrightarrow>
            unwrap_wrapped P g privateKey passphrase other = Inl OperationError)
       \<and> (deriveKey P other (draw g 0 16) = deriveKey P passphrase (draw g 0 16) \<longrightarrow>
            unwrap_wrapped P g privateKey passphrase other =
              unwrap_wrapped P g privateKey passphrase passphrase)"
proof (intro conjI impI allI)
  assume "text_roundtrip privateKey"
  then show "unwrap_wrapped P g privateKey passphrase passphrase = Inr privateKey"
    by (simp add: unwrap_same_passphrase [OF assms(1) assms(3) assms(2)] TextDecoder_TextEncoder_id)
next
  fix exported
  assume e: "arrayToBase64 P pkcs8 = Inr exported
      \<and> within_argument_limit P
           (aes_gcm_encrypt P (deriveKey P passphrase (draw g 0 16)) (draw g 16 12)
              (TextEncoder_encode exported))"
  then have "exported = base64_of pkcs8" by (simp add: arrayToBase64_Inr)
  then have "text_roundtrip exported" by (simp add: base64_of_text_roundtrip)
  then show "unwrap_wrapped P g exported passphrase passphrase = Inr exported"
    using e by (simp add: unwrap_same_passphrase [OF assms(1) _ assms(2)] TextDecoder_TextEncoder_id)
next
  assume "aes_gcm_decrypt P (deriveKey P other (draw g 0 16)) (draw g 16 12)
             (aes_gcm_encrypt P (deriveKey P passphrase (draw g 0 16)) (draw g 16 12)
                (TextEncoder_encode privateKey)) = None"
  then show "unwrap_wrapped P g privateKey passphrase other = Inl OperationError"
    by (simp add: unwrap_wrapped_eq [OF assms(3) assms(2)])
next
  assume "deriveKey P other (draw g 0 16) = deriveKey P passphrase (draw g 0 16)"
  then show "unwrap_wrapped P g privateKey passphrase other =
      unwrap_wrapped P g privateKey passphrase passphrase"
    by (simp add: unwrap_wrapped_eq [OF assms(3) assms(2)])
qed

theorem unwrap_private_key_witness:
  "aes_gcm_correct (demo_platform [])
   \<and> 16 \<le> argument_limit (demo_platform [])
   \<and> within_argument_limit (demo_platform [])
        (aes_gcm_encrypt (demo_platform []) (deriveKey (demo_platform []) (js ''pw'') (draw demo_rng 0 16))
           (draw demo_rng 16 12) (TextEncoder_encode (js ''QUJD'')))
   \<and> arrayToBase64 (demo_platform []) [0x41, 0x42, 0x43] = Inr (js ''QUJD'')
   \<and> text_roundtrip (js ''QUJD'')
   \<and> unwrap_wrapped (demo_platform []) demo_rng (js ''QUJD'') (js ''pw'') (js ''pw'') = Inr (js ''QUJD'')
   \<and> unwrap_wrapped (demo_platform []) demo_rng (js ''QUJD'') (js ''pw'') (js ''pW'') = Inl OperationError"
proof -
  let ?P = "demo_platform []"
  have c: "aes_gcm_correct ?P" by (rule demo_aes_correct)
  have t: "text_roundtrip (js ''QUJD'')"
    by (rule ascii_text_roundtrip) (simp add: js_def)
  have keys: "deriveKey ?P (js ''pW'') (draw demo_rng 0 16) \<noteq> deriveKey ?P (js ''pw'') (draw demo_rng 0 16)"
    by (simp add: demo_deriveKey demo_stretch_def js_def TextEncoder_encode_def utf8_bytes_def
        is_high_surrogate_def is_low_surrogate_def)
  have rej: "aes_gcm_decrypt ?P (deriveKey ?P (js ''pW'') (draw demo_rng 0 16)) (draw demo_rng 16 12)
             (aes_gcm_encrypt ?P (deriveKey ?P (js ''pw'') (draw demo_rng 0 16)) (draw demo_rng 16 12)
                (TextEncoder_encode (js ''QUJD''))) = None"
    using keys
    by (simp add: demo_platform_def demo_aes_other_key deriveKey_def length_demo_stretch)
  have l: "16 \<le> argument_limit ?P" by (simp add: demo_argument_limit)
  have f: "within_argument_limit ?P
        (aes_gcm_encrypt ?P (deriveKey ?P (js ''pw'') (draw demo_rng 0 16))
           (draw demo_rng 16 12) (TextEncoder_encode (js ''QUJD'')))"
    by (simp add: demo_within_limit demo_aes_length demo_deriveKey length_demo_stretch length_draw
        js_def TextEncoder_encode_def utf8_bytes_def is_high_surrogate_def is_low_surrogate_def)
  have b: "arrayToBase64 ?P [0x41, 0x42, 0x43] = Inr (js ''QUJD'')"
    by (simp add: arrayToBase64_eq demo_within_limit base64_of_def b64_char_def js_def)
  from unwrap_private_key [OF c l f, of "[0x41, 0x42, 0x43]" "js ''pW''"] c l f b t rej
  show ?thesis by simp
qed

text \<open>
  The claim as stated fails: the passphrases U+FFFD and (unpaired) U+D800 are different strings
  with the same UTF-8 encoding, so they derive the same key and each unwraps what the other
  wrapped.
\<close>

theorem unwrap_other_passphrase_counterexample:
  "unwrap_wrapped (demo_platform []) demo_rng (js ''QUJD'') [0xFFFD] [0xD800] = Inr (js ''QUJD'')
   \<and> [0xFFFD] \<noteq> [0xD800 :: code_unit]"
proof -
  let ?P = "demo_platform []"
  have enc: "TextEncoder_encode [0xD800] = TextEncoder_encode [0xFFFD]"
    by (simp add: TextEncoder_encode_def is_high_surrogate_def is_low_surrogate_def)
  have t: "text_roundtrip (js ''QUJD'')"
    by (rule ascii_text_roundtrip) (simp add: js_def)
  have l: "16 \<le> argument_limit ?P" by (simp add: demo_argument_limit)
  have f: "within_argument_limit ?P
        (aes_gcm_encrypt ?P (deriveKey ?P [0xFFFD] (draw demo_rng 0 16))
           (draw demo_rng 16 12) (TextEncoder_encode (js ''QUJD'')))"
    by (simp add: demo_within_limit demo_aes_length demo_deriveKey length_demo_stretch length_draw
        js_def TextEncoder_encode_def utf8_bytes_def is_high_surrogate_def is_low_surrogate_def)
  have "unwrap_wrapped ?P demo_rng (js ''QUJD'') [0xFFFD] [0xD800] =
        unwrap_wrapped ?P demo_rng (js ''QUJD'') [0xFFFD] [0xFFFD]"
    by (simp add: unwrap_wrapped_eq [OF f l] deriveKey_def enc)
  also have "\<dots> = Inr (js ''QUJD'')"
    by (simp add: unwrap_same_passphrase [OF demo_aes_correct f l] TextDecoder_TextEncoder_id [OF t])
  finally show ?thesis by simp
qed


section \<open>Message bundles\<close>

lemma valid_key_pairE:
  assumes "valid_key_pair P publicKey privateKey"
  obtains pub priv where "base64ToArray publicKey = Inr pub" "base64ToArray privateKey = Inr priv"
    "rsa_key_pair P pub priv"
  using assms by (auto simp add: valid_key_pair_def split: sum.splits)

lemma rsa_key_pairE:
  assumes "rsa_key_pair P pub priv" "length seed = 32" "length m = 32"
  obtains c where "rsa_oaep_encrypt P pub seed m = Some c" "rsa_oaep_decrypt P priv c = Some m"
proof -
  from assms have "case rsa_oaep_encrypt P pub seed m of None \<Rightarrow> False
      | Some c \<Rightarrow> rsa_oaep_decrypt P priv c = Some m"
    by (simp add: rsa_key_pair_def)
  then show ?thesis using that by (cases "rsa_oaep_encrypt P pub seed m") simp_all
qed

lemma small_buffers_fitD:
  assumes "small_buffers_fit P"
  shows "16 \<le> argument_limit P" and "12 \<le> argument_limit P"
    and "spki_valid P pub \<Longrightarrow> length seed = 32 \<Longrightarrow> length m = 32 \<Longrightarrow>
         rsa_oaep_encrypt P pub seed m = Some c \<Longrightarrow> within_argument_limit P c"
  using assms unfolding small_buffers_fit_def by (simp, simp, blast)

lemma encryptMessage_eq:
  assumes "base64ToArray publicKey = Inr pub" "spki_valid P pub"
    and "rsa_oaep_encrypt P pub (draw g 44 32) (draw g 0 32) = Some encKey"
  shows "encryptMessage P g plaintext publicKey =
     (if within_argument_limit P
           (aes_gcm_encrypt P (draw g 0 32) (draw g 32 12) (TextEncoder_encode plaintext))
         \<and> within_argument_limit P encKey \<and> 12 \<le> argument_limit P
      then Inr (\<lparr>b_ciphertext = base64_of (aes_gcm_encrypt P (draw g 0 32) (draw g 32 12)
                                       (TextEncoder_encode plaintext)),
                  b_encKey = base64_of encKey,
                  b_iv = base64_of (draw g 32 12)\<rparr>, advance 76 g)
      else Inl RangeError)"
  using assms
  by (simp add: encryptMessage_def importPublicKey_def getRandomValues_first draw_of_advance
      advance_advance Let_def arrayToBase64_eq within_argument_limit_def length_draw)

lemma encryptMessage_valid:
  assumes "valid_key_pair P publicKey privateKey"
    and "encryptMessage P g plaintext publicKey = Inr (made, g')"
  obtains priv encKey where
    "base64ToArray privateKey = Inr priv" "pkcs8_valid P priv"
    "rsa_oaep_decrypt P priv encKey = Some (draw g 0 32)"
    "encryptMessage P g plaintext publicKey =
       Inr (\<lparr>b_ciphertext = base64_of (aes_gcm_encrypt P (draw g 0 32) (draw g 32 12)
                                  (TextEncoder_encode plaintext)),
              b_encKey = base64_of encKey,
              b_iv = base64_of (draw g 32 12)\<rparr>, advance 76 g)"
proof -
  from assms(1) obtain pub priv where k: "base64ToArray publicKey = Inr pub"
    "base64ToArray privateKey = Inr priv" "rsa_key_pair P pub priv"
    by (rule valid_key_pairE)
  from k(3) obtain encKey where e: "rsa_oaep_encrypt P pub (draw g 44 32) (draw g 0 32) = Some encKey"
    "rsa_oaep_decrypt P priv encKey = Some (draw g 0 32)"
    by (rule rsa_key_pairE [where seed = "draw g 44 32" and m = "draw g 0 32"])
       (simp_all add: length_draw)
  from k(3) have v: "spki_valid P pub" "pkcs8_valid P priv" by (simp_all add: rsa_key_pair_def)
  from assms(2) have "encryptMessage P g plaintext publicKey =
       Inr (\<lparr>b_ciphertext = base64_of (aes_gcm_encrypt P (draw g 0 32) (draw g 32 12)
                                  (TextEncoder_encode plaintext)),
              b_encKey = base64_of encKey,
              b_iv = base64_of (draw g 32 12)\<rparr>, advance 76 g)"
    unfolding encryptMessage_eq [OF k(1) v(1) e(1)] by (simp split: if_splits)
  from that [OF k(2) v(2) e(2) this] show ?thesis .
qed

lemma encryptMessage_returns:
  assumes "valid_key_pair P publicKey privateKey"
    and "small_buffers_fit P"
    and "within_argument_limit P
           (aes_gcm_encrypt P (draw g 0 32) (draw g 32 12) (TextEncoder_encode plaintext))"
  obtains made g' where "encryptMessage P g plaintext publicKey = Inr (made, g')"
proof -
  from assms(1) obtain pub priv where k: "base64ToArray publicKey = Inr pub"
    "base64ToArray privateKey = Inr priv" "rsa_key_pair P pub priv"
    by (rule valid_key_pairE)
  from k(3) obtain encKey where e: "rsa_oaep_encrypt P pub (draw g 44 32) (draw g 0 32) = Some encKey"
    "rsa_oaep_decrypt P priv encKey = Some (draw g 0 32)"
    by (rule rsa_key_pairE [where seed = "draw g 44 32" and m = "draw g 0 32"])
       (simp_all add: length_draw)
  from k(3) have v: "spki_valid P pub" by (simp add: rsa_key_pair_def)
  have "within_argument_limit P encKey"
    by (rule small_buffers_fitD(3) [OF assms(2) v _ _ e(1)]) (simp_all add: length_draw)
  moreover have "12 \<le> argument_limit P" by (rule small_buffers_fitD(2) [OF assms(2)])
  ultimately have "within_argument_limit P encKey" and "12 \<le> argument_limit P" .
  with assms(3) show ?thesis
    using that by (simp add: encryptMessage_eq [OF k(1) v e(1)])
qed

lemma encryptMessage_too_long:
  assumes "valid_key_pair P publicKey privateKey"
    and "\<not> within_argument_limit P
           (aes_gcm_encrypt P (draw g 0 32) (draw g 32 12) (TextEncoder_encode plaintext))"
  shows "encryptMessage P g plaintext publicKey = Inl RangeError"
proof -
  from assms(1) obtain pub priv where k: "base64ToArray publicKey = Inr pub"
    "base64ToArray privateKey = Inr priv" "rsa_key_pair P pub priv"
    by (rule valid_key_pairE)
  from k(3) obtain encKey where e: "rsa_oaep_encrypt P pub (draw g 44 32) (draw g 0 32) = Some encKey"
    "rsa_oaep_decrypt P priv encKey = Some (draw g 0 32)"
    by (rule rsa_key_pairE [where seed = "draw g 44 32" and m = "draw g 0 32"])
       (simp_all add: length_draw)
  from k(3) have v: "spki_valid P pub" by (simp add: rsa_key_pair_def)
  from assms(2) show ?thesis by (simp add: encryptMessage_eq [OF k(1) v e(1)])
qed

lemma decrypt_tampered_ciphertext:
  assumes "valid_key_pair P publicKey privateKey"
    and "encryptMessage P g plaintext publicKey = Inr (made, g')"
  shows "decrypt_tampered P g plaintext publicKey privateKey (\<lambda>pkg. pkg\<lparr>b_ciphertext := s\<rparr>) =
     (case base64ToArray s of
        Inl e \<Rightarrow> Inl e
      | Inr ct \<Rightarrow>
          (case aes_gcm_decrypt P (draw g 0 32) (draw g 32 12) ct of
             None \<Rightarrow> Inl OperationError
           | Some pt \<Rightarrow> Inr (TextDecoder_decode pt)))"
proof -
  from assms obtain priv encKey where
    "base64ToArray privateKey = Inr priv" "pkcs8_valid P priv"
    "rsa_oaep_decrypt P priv encKey = Some (draw g 0 32)"
    "encryptMessage P g plaintext publicKey =
       Inr (\<lparr>b_ciphertext = base64_of (aes_gcm_encrypt P (draw g 0 32) (draw g 32 12)
                                  (TextEncoder_encode plaintext)),
              b_encKey = base64_of encKey,
              b_iv = base64_of (draw g 32 12)\<rparr>, advance 76 g)"
    by (rule encryptMessage_valid)
  then show ?thesis
    by (simp add: decrypt_tampered_def decryptMessage_def importPrivateKey_def base64_roundtrip
        length_draw split: sum.splits)
qed

lemma decrypt_tampered_iv:
  assumes "valid_key_pair P publicKey privateKey"
    and "encryptMessage P g plaintext publicKey = Inr (made, g')"
  shows "decrypt_tampered P g plaintext publicKey privateKey (\<lambda>pkg. pkg\<lparr>b_iv := s\<rparr>) =
     (case base64ToArray s of
        Inl e \<Rightarrow> Inl e
      | Inr iv \<Rightarrow>
          (case aes_gcm_decrypt P (draw g 0 32) iv
                  (aes_gcm_encrypt P (draw g 0 32) (draw g 32 12) (TextEncoder_encode plaintext)) of
             None \<Rightarrow> Inl OperationError
           | Some pt \<Rightarrow> Inr (TextDecoder_decode pt)))"
proof -
  from assms obtain priv encKey where
    "base64ToArray privateKey = Inr priv" "pkcs8_valid P priv"
    "rsa_oaep_decrypt P priv encKey = Some (draw g 0 32)"
    "encryptMessage P g plaintext publicKey =
       Inr (\<lparr>b_ciphertext = base64_of (aes_gcm_encrypt P (draw g 0 32) (draw g 32 12)
                                  (TextEncoder_encode plaintext)),
              b_encKey = base64_of encKey,
              b_iv = base64_of (draw g 32 12)\<rparr>, advance 76 g)"
    by (rule encryptMessage_valid)
  then show ?thesis
    by (simp add: decrypt_tampered_def decryptMessage_def importPrivateKey_def base64_roundtrip
        length_draw split: sum.splits)
qed

lemma decrypt_tampered_encKey:
  assumes "valid_key_pair P publicKey privateKey"
    and "encryptMessage P g plaintext publicKey = Inr (made, g')"
  shows "decrypt_tampered P g plaintext publicKey privateKey (\<lambda>pkg. pkg\<lparr>b_encKey := s\<rparr>) =
     (case base64ToArray privateKey of Inl e \<Rightarrow> Inl e | Inr priv \<Rightarrow>
      case base64ToArray s of Inl e \<Rightarrow> Inl e | Inr encKey \<Rightarrow>
      case rsa_oaep_decrypt P priv encKey of None \<Rightarrow> Inl OperationError | Some aesRaw \<Rightarrow>
      if length aesRaw \<noteq> 16 \<and> length aesRaw \<noteq> 24 \<and> length aesRaw \<noteq> 32 then Inl DataError
      else
        (case aes_gcm_decrypt P aesRaw (draw g 32 12)
                (aes_gcm_encrypt P (draw g 0 32) (draw g 32 12) (TextEncoder_encode plaintext)) of
           None \<Rightarrow> Inl OperationError
         | Some pt \<Rightarrow> Inr (TextDecoder_decode pt)))"
proof -
  from assms obtain priv encKey where
    "base64ToArray privateKey = Inr priv" "pkcs8_valid P priv"
    "rsa_oaep_decrypt P priv encKey = Some (draw g 0 32)"
    "encryptMessage P g plaintext publicKey =
       Inr (\<lparr>b_ciphertext = base64_of (aes_gcm_encrypt P (draw g 0 32) (draw g 32 12)
                                  (TextEncoder_encode plaintext)),
              b_encKey = base64_of encKey,
              b_iv = base64_of (draw g 32 12)\<rparr>, advance 76 g)"
    by (rule encryptMessage_valid)
  then show ?thesis
    by (simp add: decrypt_tampered_def decryptMessage_def importPrivateKey_def base64_roundtrip
        split: sum.splits option.splits)
qed

lemma message_roundtrip_eq:
  assumes "aes_gcm_correct P" "valid_key_pair P publicKey privateKey"
    and "small_buffers_fit P"
    and "within_argument_limit P
           (aes_gcm_encrypt P (draw g 0 32) (draw g 32 12) (TextEncoder_encode plaintext))"
  shows "message_roundtrip P g plaintext publicKey privateKey =
           Inr (TextDecoder_decode (TextEncoder_encode plaintext))"
proof -
  from assms(2-4) obtain made g' where "encryptMessage P g plaintext publicKey = Inr (made, g')"
    by (rule encryptMessage_returns)
  with assms(2) obtain priv encKey where
    "base64ToArray privateKey = Inr priv" "pkcs8_valid P priv"
    "rsa_oaep_decrypt P priv encKey = Some (draw g 0 32)"
    "encryptMessage P g plaintext publicKey =
       Inr (\<lparr>b_ciphertext = base64_of (aes_gcm_encrypt P (draw g 0 32) (draw g 32 12)
                                  (TextEncoder_encode plaintext)),
              b_encKey = base64_of encKey,
              b_iv = base64_of (draw g 32 12)\<rparr>, advance 76 g)"
    by (rule encryptMessage_valid)
  with assms(1) show ?thesis
    by (simp add: message_roundtrip_def decrypt_tampered_def decryptMessage_def
        importPrivateKey_def base64_roundtrip length_draw aes_gcm_correct_def)
qed

lemma demo_keys_valid: "valid_key_pair (demo_platform book) demo_publicKey demo_privateKey"
  unfolding demo_publicKey_def demo_privateKey_def by (rule demo_valid_key_pair) simp_all

lemma length_encode_ascii:
  "\<forall>u \<in> set s. unat u < 0x80 \<Longrightarrow> length (TextEncoder_encode s) = length s"
proof (induction s)
  case Nil
  then show ?case by (simp add: TextEncoder_encode_def)
next
  case (Cons u s)
  then have "\<not> is_high_surrogate (unat u)" "\<not> is_low_surrogate (unat u)" "unat u < 0x80"
    by (simp_all add: is_high_surrogate_def is_low_surrogate_def)
  with Cons show ?case
    by (cases s) (simp_all add: TextEncoder_encode_def utf8_bytes_def)
qed

lemma demo_message_fits:
  assumes "\<forall>u \<in> set plaintext. unat u < 0x80" and "length plaintext \<le> 65000"
  shows "within_argument_limit (demo_platform book)
           (aes_gcm_encrypt (demo_platform book) (draw g 0 32) (draw g 32 12)
              (TextEncoder_encode plaintext))"
  using assms by (simp add: demo_within_limit demo_aes_length length_draw length_encode_ascii)

text \<open>
  Claim C1, as amended. For every plaintext that is a well-formed UTF-16 string not starting with
  U+FEFF and whose ciphertext the engine can encode (it has no more bytes than a call takes
  arguments), and every valid key pair, decrypting with the private key the bundle that
  encryptMessage made for the public key returns the plaintext.
\<close>

theorem decrypt_encrypted_message:
  assumes "aes_gcm_correct P" "valid_key_pair P publicKey privateKey" "text_roundtrip plaintext"
    and "small_buffers_fit P"
    and "within_argument_limit P
           (aes_gcm_encrypt P (draw g 0 32) (draw g 32 12) (TextEncoder_encode plaintext))"
  shows "message_roundtrip P g plaintext publicKey privateKey = Inr plaintext"
  using assms by (simp add: message_roundtrip_eq TextDecoder_TextEncoder_id)

theorem decrypt_encrypted_message_witness:
  "aes_gcm_correct (demo_platform [])
   \<and> valid_key_pair (demo_platform []) demo_publicKey demo_privateKey
   \<and> text_roundtrip (js ''hello'')
   \<and> small_buffers_fit (demo_platform [])
   \<and> within_argument_limit (demo_platform [])
        (aes_gcm_encrypt (demo_platform []) (draw demo_rng 0 32) (draw demo_rng 32 12)
           (TextEncoder_encode (js ''hello'')))
   \<and> message_roundtrip (demo_platform []) demo_rng (js ''hello'') demo_publicKey demo_privateKey
       = Inr (js ''hello'')"
proof -
  have t: "text_roundtrip (js ''hello'')"
    by (rule ascii_text_roundtrip) (simp add: js_def)
  have f: "within_argument_limit (demo_platform [])
        (aes_gcm_encrypt (demo_platform []) (draw demo_rng 0 32) (draw demo_rng 32 12)
           (TextEncoder_encode (js ''hello'')))"
    by (rule demo_message_fits) (simp_all add: js_def)
  from decrypt_encrypted_message [where P = "demo_platform []" and g = demo_rng,
      OF demo_aes_correct demo_keys_valid t demo_small_buffers_fit f]
    demo_aes_correct [of "[]"] demo_keys_valid [of "[]"] t demo_small_buffers_fit [of "[]"] f
  show ?thesis by simp
qed

text \<open>
  The claim as stated fails on a plaintext that starts with U+FEFF, and on one with an unpaired
  surrogate: TextDecoder drops a leading byte order mark, so the one-character message U+FEFF
  comes back as the empty string, and TextEncoder writes an unpaired surrogate as U+FFFD, so the
  message U+D800 comes back as U+FFFD.
\<close>

theorem decrypt_encrypted_message_counterexample:
  "aes_gcm_correct (demo_platform [])
   \<and> valid_key_pair (demo_platform []) demo_publicKey demo_privateKey
   \<and> message_roundtrip (demo_platform []) demo_rng [0xFEFF] demo_publicKey demo_privateKey = Inr []
   \<and> message_roundtrip (demo_platform []) demo_rng [0xD800] demo_publicKey demo_privateKey
       = Inr [0xFFFD]"
proof -
  let ?P = "demo_platform []"
  have d1: "TextDecoder_decode (TextEncoder_encode [0xFEFF]) = []"
    by (simp add: TextDecoder_TextEncoder strip_bom_def is_high_surrogate_def
        is_low_surrogate_def)
  have d2: "TextDecoder_decode (TextEncoder_encode [0xD800]) = [0xFFFD]"
    by (simp add: TextDecoder_TextEncoder strip_bom_def is_high_surrogate_def
        is_low_surrogate_def utf16_units_def)
  have f1: "within_argument_limit ?P
        (aes_gcm_encrypt ?P (draw demo_rng 0 32) (draw demo_rng 32 12) (TextEncoder_encode [0xFEFF]))"
    by (simp add: demo_within_limit demo_aes_length length_draw TextEncoder_encode_def
        utf8_bytes_def is_high_surrogate_def is_low_surrogate_def)
  have f2: "within_argument_limit ?P
        (aes_gcm_encrypt ?P (draw demo_rng 0 32) (draw demo_rng 32 12) (TextEncoder_encode [0xD800]))"
    by (simp add: demo_within_limit demo_aes_length length_draw TextEncoder_encode_def
        utf8_bytes_def is_high_surrogate_def is_low_surrogate_def)
  from message_roundtrip_eq [where P = ?P and g = demo_rng and plaintext = "[0xFEFF]",
      OF demo_aes_correct demo_keys_valid demo_small_buffers_fit f1]
    message_roundtrip_eq [where P = ?P and g = demo_rng and plaintext = "[0xD800]",
      OF demo_aes_correct demo_keys_valid demo_small_buffers_fit f2]
    d1 d2 demo_aes_correct [of "[]"] demo_keys_valid [of "[]"]
  show ?thesis by simp
qed

section \<open>Tampering with a bundle\<close>

lemma length_btoa_bytes: "length (btoa_bytes xs) = 4 * ((length xs + 2) div 3)"
proof (induction xs rule: btoa_bytes.induct)
  case (4 a b c rest)
  have "(5 + length rest) div 3 = Suc (Suc (Suc (length rest)) div 3)" by arith
  with 4 show ?case by simp
qed simp_all

lemma btoa_bytes_snoc:
  "length ys mod 3 = 0 \<Longrightarrow>
   btoa_bytes (ys @ [a]) = btoa_bytes ys @ [b64_char (a div 4), b64_char (a mod 4 * 16), 61, 61]"
  by (induction ys rule: btoa_bytes.induct) simp_all

lemma b64_sextets_length_full: "length xs mod 3 = 0 \<Longrightarrow> length (b64_sextets xs) mod 4 = 0"
  by (simp add: b64_sextets_length)

lemma b64_bytes_snoc2:
  "length ss mod 4 = 0 \<Longrightarrow> b64_bytes (ss @ [s1, s2]) = b64_bytes ss @ [s1 * 4 + s2 div 16]"
  by (induction ss rule: b64_bytes.induct) simp_all

lemma atob_slack_bits:
  assumes ys: "\<forall>x \<in> set ys. x < 256" and len: "length ys mod 3 = 0" and a: "a < 256"
    and s2: "s2 < 64" "s2 div 16 = a mod 4"
  shows "atob (btoa_bytes ys @ [b64_char (a div 4), b64_char s2, 61, 61]) = Inr (map of_nat (ys @ [a]))"
proof -
  let ?ss = "b64_sextets ys"
  let ?cs = "map b64_char (?ss @ [a div 4, s2])"
  have bound: "\<forall>s \<in> set ?ss. s < 64" using ys by (rule b64_sextets_bound)
  have s1: "a div 4 < 64" using a by (simp add: less_mult_imp_div_less)
  have bound': "\<forall>s \<in> set (?ss @ [a div 4, s2]). s < 64" using bound s1 s2 by simp
  have full: "length ?ss mod 4 = 0" using len by (rule b64_sextets_length_full)
  have enc: "btoa_bytes ys @ [b64_char (a div 4), b64_char s2, 61, 61] = ?cs @ [61, 61]"
    using len by (simp add: btoa_bytes_sextets b64_padding_def)
  have "\<forall>u \<in> set ?cs. \<not> ascii_whitespace u"
    using bound' b64_char_not_space by fastforce
  moreover have "\<not> ascii_whitespace 61" by (simp add: ascii_whitespace_def)
  ultimately have nospace: "filter (\<lambda>u. \<not> ascii_whitespace u) (?cs @ [61, 61]) = ?cs @ [61, 61]"
    by (auto simp add: filter_id_conv)
  have len2: "length ?cs mod 4 = 2" using full by (simp add: mod_Suc)
  have strip: "strip_padding (?cs @ [61, 61]) = ?cs" using len2 by (rule strip_padding_two)
  have vals: "those (map b64_value ?cs) = Some (?ss @ [a div 4, s2])"
    using those_b64_value [OF bound'] by (simp add: comp_def)
  have bytes: "b64_bytes (?ss @ [a div 4, s2]) = ys @ [a]"
    using s2(2) by (simp add: b64_bytes_snoc2 [OF full] b64_bytes_sextets [OF ys])
  have "atob (?cs @ [61, 61]) = Inr (map of_nat (ys @ [a]))"
    unfolding atob_def nospace strip Let_def
    by (simp only: len2 vals option.case) (simp add: bytes)
  then show ?thesis by (simp only: enc)
qed

lemma flip_bit_append:
  "flip_bit_at (length xs + i) j (xs @ ys) = xs @ flip_bit_at i j ys"
  by (simp add: flip_bit_at_def list_update_append nth_append)

lemma flip_first_bit: "xs \<noteq> [] \<Longrightarrow> flip_bit_at 0 0 xs \<noteq> xs"
proof (cases xs)
  case Nil then show "xs \<noteq> [] \<Longrightarrow> ?thesis" by simp
next
  case (Cons x rest)
  have "x XOR 1 \<noteq> x"
  proof
    assume "x XOR 1 = x"
    then have "(x XOR 1) XOR x = x XOR x" by simp
    then show False by (simp add: xor.commute xor.left_commute)
  qed
  with Cons show ?thesis by (simp add: flip_bit_at_def)
qed

lemma length_flip_bit: "length (flip_bit_at i j xs) = length xs"
  by (simp add: flip_bit_at_def)

lemma decrypt_tampered_cong:
  assumes "encryptMessage P g plaintext publicKey = Inr (pkg, g')" "tamper pkg = tamper' pkg"
  shows "decrypt_tampered P g plaintext publicKey privateKey tamper =
         decrypt_tampered P g plaintext publicKey privateKey tamper'"
  using assms by (simp add: decrypt_tampered_def)

lemma demo_encryptMessage:
  assumes "\<forall>u \<in> set plaintext. unat u < 0x80" and "length plaintext \<le> 65000"
  shows "encryptMessage (demo_platform book) demo_rng plaintext demo_publicKey =
     Inr (\<lparr>b_ciphertext = base64_of (demo_aes_encrypt (draw demo_rng 0 32) (draw demo_rng 32 12)
                                (TextEncoder_encode plaintext)),
            b_encKey = base64_of demo_encKey,
            b_iv = base64_of (draw demo_rng 32 12)\<rparr>, advance 76 demo_rng)"
proof -
  have "encryptMessage (demo_platform book) demo_rng plaintext demo_publicKey =
     (if within_argument_limit (demo_platform book)
           (aes_gcm_encrypt (demo_platform book) (draw demo_rng 0 32) (draw demo_rng 32 12)
              (TextEncoder_encode plaintext))
         \<and> within_argument_limit (demo_platform book) demo_encKey
         \<and> 12 \<le> argument_limit (demo_platform book)
      then Inr (\<lparr>b_ciphertext = base64_of (aes_gcm_encrypt (demo_platform book) (draw demo_rng 0 32)
                    (draw demo_rng 32 12) (TextEncoder_encode plaintext)),
                  b_encKey = base64_of demo_encKey,
                  b_iv = base64_of (draw demo_rng 32 12)\<rparr>, advance 76 demo_rng)
      else Inl RangeError)"
    by (rule encryptMessage_eq [where pub = "demo_public [1, 2, 3]"])
       (simp_all add: demo_publicKey_def base64_roundtrip demo_platform_def demo_public_def
         demo_rsa_encrypt_def demo_encKey_def length_draw)
  moreover have "within_argument_limit (demo_platform book) demo_encKey"
    by (simp add: demo_within_limit demo_encKey_def length_draw demo_public_def)
  moreover have "12 \<le> argument_limit (demo_platform book)" by (simp add: demo_argument_limit)
  moreover note demo_message_fits [OF assms, of book demo_rng]
  ultimately have "encryptMessage (demo_platform book) demo_rng plaintext demo_publicKey =
     Inr (\<lparr>b_ciphertext = base64_of (aes_gcm_encrypt (demo_platform book) (draw demo_rng 0 32)
                 (draw demo_rng 32 12) (TextEncoder_encode plaintext)),
            b_encKey = base64_of demo_encKey,
            b_iv = base64_of (draw demo_rng 32 12)\<rparr>, advance 76 demo_rng)"
    by simp
  then show ?thesis by (simp add: demo_platform_def)
qed

lemma demo_encryptMessage_hi:
  "encryptMessage (demo_platform book) demo_rng (js ''hi'') demo_publicKey =
     Inr (\<lparr>b_ciphertext = base64_of (demo_aes_encrypt (draw demo_rng 0 32) (draw demo_rng 32 12)
                                (TextEncoder_encode (js ''hi''))),
            b_encKey = base64_of demo_encKey,
            b_iv = base64_of (draw demo_rng 32 12)\<rparr>, advance 76 demo_rng)"
  by (rule demo_encryptMessage) (simp_all add: js_def)

lemma demo_encKey_slack:
  "base64ToArray (flip_bit_at 89 1 (base64_of demo_encKey)) = Inr demo_encKey"
proof -
  define ys where "ys = map unat (draw demo_rng 0 32 @ draw demo_rng 44 32 @ [2, 3])"
  have ek: "map unat demo_encKey = ys @ [4]"
    by (simp add: demo_encKey_def ys_def demo_public_def)
  have len: "length ys = 66" by (simp add: ys_def length_draw)
  have bound: "\<forall>x \<in> set ys. x < 256" unfolding ys_def by (auto simp add: unat_byte_bound)
  have lb: "length (btoa_bytes ys) = 88" by (simp add: length_btoa_bytes len)
  have "base64_of demo_encKey = btoa_bytes ys @ [b64_char 1, b64_char 0, 61, 61]"
    unfolding base64_of_def ek using len by (simp add: btoa_bytes_snoc)
  then have "flip_bit_at 89 1 (base64_of demo_encKey) =
      btoa_bytes ys @ flip_bit_at 1 1 [b64_char 1, b64_char 0, 61, 61]"
    using flip_bit_append [of "btoa_bytes ys" 1 1] lb by simp
  also have "flip_bit_at 1 1 [b64_char 1, b64_char 0, 61, 61] = [b64_char (4 div 4), b64_char 2, 61, 61]"
    by (simp add: flip_bit_at_def b64_char_def)
  finally have "atob (flip_bit_at 89 1 (base64_of demo_encKey)) = Inr (map of_nat (ys @ [4]))"
    using atob_slack_bits [OF bound, of 4 2] len by simp
  moreover have "map ucast (map of_nat (ys @ [4]) :: jsstring) = demo_encKey"
    unfolding ek [symmetric] by (simp add: comp_def ucast_byte_code_unit)
  ultimately show ?thesis by (simp add: base64ToArray_def)
qed

text \<open>
  Claim C9, as amended. For a bundle that encryptMessage made for a valid key pair, replacing one
  of its three fields by any string s gives exactly this: decryptMessage fails with
  InvalidCharacterError when s is not base64; otherwise it hands the decoded bytes to the
  platform, together with the untouched fields' original session key, nonce and ciphertext,
  and fails with OperationError when RSA-OAEP or AES-GCM rejects them (DataError when the
  unwrapped key has no AES length); it returns a plaintext only when the platform accepts. So a
  flipped bit is rejected whenever the platform's authenticated decryption rejects the changed
  bytes, and is not noticed when the decoded bytes are unchanged.
\<close>

theorem tampered_bundle:
  assumes "valid_key_pair P publicKey privateKey"
    and "encryptMessage P g plaintext publicKey = Inr (made, g')"
  shows "decrypt_tampered P g plaintext publicKey privateKey (\<lambda>pkg. pkg\<lparr>b_ciphertext := s\<rparr>) =
           (case base64ToArray s of
              Inl e \<Rightarrow> Inl e
            | Inr ct \<Rightarrow>
                (case aes_gcm_decrypt P (draw g 0 32) (draw g 32 12) ct of
                   None \<Rightarrow> Inl OperationError
                 | Some pt \<Rightarrow> Inr (TextDecoder_decode pt)))
       \<and> decrypt_tampered P g plaintext publicKey privateKey (\<lambda>pkg. pkg\<lparr>b_iv := s\<rparr>) =
           (case base64ToArray s of
              Inl e \<Rightarrow> Inl e
            | Inr iv \<Rightarrow>
                (case aes_gcm_decrypt P (draw g 0 32) iv
                        (aes_gcm_encrypt P (draw g 0 32) (draw g 32 12)
                           (TextEncoder_encode plaintext)) of
                   None \<Rightarrow> Inl OperationError
                 | Some pt \<Rightarrow> Inr (TextDecoder_decode pt)))
       \<and> decrypt_tampered P g plaintext publicKey privateKey (\<lambda>pkg. pkg\<lparr>b_encKey := s\<rparr>) =
           (case base64ToArray privateKey of Inl e \<Rightarrow> Inl e | Inr priv \<Rightarrow>
            case base64ToArray s of Inl e \<Rightarrow> Inl e | Inr encKey \<Rightarrow>
            case rsa_oaep_decrypt P priv encKey of None \<Rightarrow> Inl OperationError | Some aesRaw \<Rightarrow>
            if length aesRaw \<noteq> 16 \<and> length aesRaw \<noteq> 24 \<and> length aesRaw \<noteq> 32 then Inl DataError
            else
              (case aes_gcm_decrypt P aesRaw (draw g 32 12)
                      (aes_gcm_encrypt P (draw g 0 32) (draw g 32 12)
                         (TextEncoder_encode plaintext)) of
                 None \<Rightarrow> Inl OperationError
               | Some pt \<Rightarrow> Inr (TextDecoder_decode pt)))"
  by (simp only: decrypt_tampered_ciphertext [OF assms] decrypt_tampered_iv [OF assms]
      decrypt_tampered_encKey [OF assms] simp_thms)

theorem tampered_bundle_witness:
  "valid_key_pair (demo_platform []) demo_publicKey demo_privateKey
   \<and> encryptMessage (demo_platform []) demo_rng (js ''hi'') demo_publicKey =
       Inr (\<lparr>b_ciphertext = base64_of (demo_aes_encrypt (draw demo_rng 0 32) (draw demo_rng 32 12)
                                  (TextEncoder_encode (js ''hi''))),
              b_encKey = base64_of demo_encKey,
              b_iv = base64_of (draw demo_rng 32 12)\<rparr>, advance 76 demo_rng)
   \<and> decrypt_tampered (demo_platform []) demo_rng (js ''hi'') demo_publicKey demo_privateKey
       (\<lambda>pkg. pkg\<lparr>b_iv := base64_of (flip_bit_at 0 0 (draw demo_rng 32 12))\<rparr>) = Inl OperationError"
proof -
  let ?iv = "draw demo_rng 32 12"
  have "flip_bit_at 0 0 ?iv \<noteq> ?iv" by (rule flip_first_bit) (simp add: draw_def)
  then have "demo_aes_decrypt (draw demo_rng 0 32) (flip_bit_at 0 0 ?iv)
      (demo_aes_encrypt (draw demo_rng 0 32) ?iv (TextEncoder_encode (js ''hi''))) = None"
    by (intro demo_aes_other_iv) (simp_all add: length_flip_bit)
  then show ?thesis
    using tampered_bundle [where P = "demo_platform []" and g = demo_rng
        and plaintext = "js ''hi''" and s = "base64_of (flip_bit_at 0 0 ?iv)",
        OF demo_keys_valid demo_encryptMessage_hi]
      demo_keys_valid [of "[]"] demo_encryptMessage_hi [of "[]"]
    by (simp add: base64_roundtrip demo_platform_def)
qed

text \<open>
  The claim as stated fails: the wrapped key is 67 bytes here (256 with RSA-2048), one more than a
  multiple of three, so the last base64 character before the padding carries four unused bits.
  Flipping one of them (character 89, bit 1: A becomes C) leaves the decoded bytes as they
  were, and decryptMessage returns the plaintext.
\<close>

theorem tampered_bundle_counterexample:
  "decrypt_tampered (demo_platform []) demo_rng (js ''hi'') demo_publicKey demo_privateKey
     (\<lambda>pkg. pkg\<lparr>b_encKey := flip_bit_at 89 1 (b_encKey pkg)\<rparr>) = Inr (js ''hi'')
   \<and> flip_bit_at 89 1 (base64_of demo_encKey) \<noteq> base64_of demo_encKey"
proof -
  let ?P = "demo_platform []"
  let ?s = "flip_bit_at 89 1 (base64_of demo_encKey)"
  have t: "text_roundtrip (js ''hi'')" by (rule ascii_text_roundtrip) (simp add: js_def)
  have "decrypt_tampered ?P demo_rng (js ''hi'') demo_publicKey demo_privateKey
          (\<lambda>pkg. pkg\<lparr>b_encKey := flip_bit_at 89 1 (b_encKey pkg)\<rparr>)
      = decrypt_tampered ?P demo_rng (js ''hi'') demo_publicKey demo_privateKey
          (\<lambda>pkg. pkg\<lparr>b_encKey := ?s\<rparr>)"
    by (rule decrypt_tampered_cong [OF demo_encryptMessage_hi]) simp
  also have "\<dots> = Inr (TextDecoder_decode (TextEncoder_encode (js ''hi'')))"
  proof -
    have e1: "base64ToArray demo_privateKey = Inr [1, 2, 3]"
      by (simp add: demo_privateKey_def base64_roundtrip)
    have "demo_rsa_decrypt [1, 2, 3] demo_encKey = Some (draw demo_rng 0 32)"
      unfolding demo_encKey_def
      by (rule demo_rsa_decrypt_encrypt) (simp_all add: length_draw)
    then have e2: "rsa_oaep_decrypt ?P [1, 2, 3] demo_encKey = Some (draw demo_rng 0 32)"
      by (simp add: demo_platform_def)
    have e3: "aes_gcm_decrypt ?P (draw demo_rng 0 32) (draw demo_rng 32 12)
        (aes_gcm_encrypt ?P (draw demo_rng 0 32) (draw demo_rng 32 12)
           (TextEncoder_encode (js ''hi''))) = Some (TextEncoder_encode (js ''hi''))"
      using demo_aes_correct [of "[]"] by (simp add: aes_gcm_correct_def)
    show ?thesis
      unfolding decrypt_tampered_encKey [OF demo_keys_valid demo_encryptMessage_hi]
      by (simp only: e1 demo_encKey_slack e2 e3 sum.case option.case) (simp add: length_draw)
  qed
  also have "\<dots> = Inr (js ''hi'')" by (simp add: TextDecoder_TextEncoder_id [OF t])
  finally have first: "decrypt_tampered ?P demo_rng (js ''hi'') demo_publicKey demo_privateKey
          (\<lambda>pkg. pkg\<lparr>b_encKey := flip_bit_at 89 1 (b_encKey pkg)\<rparr>) = Inr (js ''hi'')" .
  have "?s ! 89 \<noteq> base64_of demo_encKey ! 89"
  proof -
    have "length (base64_of demo_encKey) = 92"
      by (simp add: base64_of_def length_btoa_bytes demo_encKey_def length_draw demo_public_def)
    then have "?s ! 89 = base64_of demo_encKey ! 89 XOR 2" by (simp add: flip_bit_at_def)
    moreover have "x XOR 2 \<noteq> x" for x :: code_unit
    proof
      assume "x XOR 2 = x"
      then have "(x XOR 2) XOR x = x XOR x" by simp
      then show False by (simp add: xor.commute xor.left_commute)
    qed
    ultimately show ?thesis by simp
  qed
  then have "?s \<noteq> base64_of demo_encKey" by auto
  with first show ?thesis by simp
qed


section \<open>The two bundles of a sent message\<close>

lemma wrapped_key_eq:
  assumes "base64ToArray privateKey = Inr priv" "pkcs8_valid P priv"
  shows "wrapped_key P \<lparr>b_ciphertext = c, b_encKey = base64_of encKey, b_iv = i\<rparr> privateKey =
           rsa_oaep_decrypt P priv encKey"
  using assms by (simp add: wrapped_key_def importPrivateKey_def base64_roundtrip)

lemma wrapped_key_encKey:
  assumes "base64ToArray privateKey = Inr priv" "pkcs8_valid P priv"
    and "b_encKey pkg = base64_of encKey"
  shows "wrapped_key P pkg privateKey = rsa_oaep_decrypt P priv encKey"
  using assms by (simp add: wrapped_key_def importPrivateKey_def base64_roundtrip)

lemma draw_nth: "i < n \<Longrightarrow> draw g off n ! i = g (off + i)"
  by (simp add: draw_def)

lemma demo_sender_keys_valid:
  "valid_key_pair (demo_platform book) demo_senderPublicKey demo_senderPrivateKey"
  unfolding demo_senderPublicKey_def demo_senderPrivateKey_def by (rule demo_valid_key_pair) simp_all

subsection \<open>One call, run alone\<close>

lemma encryptMessage_steps:
  "\<exists>result g'.
     settle P 5 (encryptMessage_call P plaintext recipientPubKeyB64) g = (Settled result, g')
     \<and> encryptMessage P g plaintext recipientPubKeyB64 =
         (case result of Inl e \<Rightarrow> Inl e | Inr pkg \<Rightarrow> Inr (pkg, g'))"
proof -
  have five: "(5::nat) = Suc (Suc (Suc (Suc (Suc 0))))" by simp
  show ?thesis
    unfolding five
    by (simp add: encryptMessage_def encryptMessage_call_def importPublicKey_def
        getRandomValues_first Let_def split: sum.splits option.splits)
qed

subsection \<open>One step of a call that has met no error\<close>

lemma seals_made:
  "seals P \<lparr>b_ciphertext = base64_of (aes_gcm_encrypt P key iv (TextEncoder_encode text)),
             b_encKey = k, b_iv = base64_of iv\<rparr> key text"
  by (simp add: seals_def base64_roundtrip)

lemma resume_good:
  assumes "task_inv P text pub priv g0 off task"
    and "rsa_key_pair P pub priv" and "small_buffers_fit P" and "messages_fit P text"
  obtains task' where
    "resume P task (advance n g0) = (task', advance (n + (used task' - used task)) g0)"
    "used task \<le> used task'"
    "awaits_left task' = awaits_left task - 1"
    "task_inv P text pub priv g0
       (case task of AwaitGenerateKey plaintext k \<Rightarrow> Some n | _ \<Rightarrow> off) task'"
proof (cases task)
  case (AwaitImportKey plaintext spki)
  with assms(1,2) show ?thesis
    using that [of "AwaitGenerateKey plaintext spki"] by (simp add: rsa_key_pair_def)
next
  case (AwaitGenerateKey plaintext k)
  with assms(1) show ?thesis
    using that [of "AwaitExportKey plaintext k (draw g0 n 32)"]
    by (simp add: getRandomValues_first draw_of_advance advance_advance)
next
  case (AwaitExportKey plaintext k aesKey)
  with assms(1) show ?thesis
    using that [of "AwaitEncrypt k aesKey (draw g0 n 12) (TextEncoder_encode plaintext)"]
    by (simp add: getRandomValues_first draw_of_advance advance_advance length_draw)
next
  case (AwaitEncrypt k aesRaw iv msgBytes)
  with assms(1) show ?thesis
    using that [of "AwaitWrapKey k aesRaw iv (aes_gcm_encrypt P aesRaw iv msgBytes)"]
    by simp
next
  case (AwaitWrapKey k aesRaw iv ciphertext)
  with assms(1) obtain i where t: "k = pub" "off = Some i" "aesRaw = draw g0 i 32" "length iv = 12"
    "ciphertext = aes_gcm_encrypt P aesRaw iv (TextEncoder_encode text)"
    by auto
  from assms(2) obtain encKey where
    e: "rsa_oaep_encrypt P pub (draw g0 n 32) aesRaw = Some encKey"
      "rsa_oaep_decrypt P priv encKey = Some aesRaw"
    by (rule rsa_key_pairE [where seed = "draw g0 n 32" and m = aesRaw])
       (simp_all add: length_draw t(3))
  from assms(2) have "spki_valid P pub" by (simp add: rsa_key_pair_def)
  then have f1: "within_argument_limit P encKey"
    by (rule small_buffers_fitD(3) [OF assms(3) _ _ _ e(1)]) (simp_all add: length_draw t(3))
  from assms(4) t(3,4) have f2: "within_argument_limit P ciphertext"
    unfolding t(5) messages_fit_def by (simp add: length_draw)
  from small_buffers_fitD(2) [OF assms(3)] t(4) have f3: "within_argument_limit P iv"
    by (simp add: within_argument_limit_def)
  let ?pkg = "\<lparr>b_ciphertext = base64_of ciphertext, b_encKey = base64_of encKey,
      b_iv = base64_of iv\<rparr>"
  have r: "resume P task (advance n g0) = (Settled (Inr ?pkg), advance (n + 32) g0)"
    unfolding AwaitWrapKey t(1)
    by (simp add: getRandomValues_first draw_of_advance advance_advance e(1) arrayToBase64_eq f1 f2 f3)
  have "seals P ?pkg (draw g0 i 32) text"
    unfolding t(5) t(3) by (rule seals_made)
  with e(2) t(2,3) have "task_inv P text pub priv g0 off (Settled (Inr ?pkg))"
    by auto
  with r show ?thesis
    using that [of "Settled (Inr ?pkg)"] by (simp add: AwaitWrapKey)
next
  case (Settled result)
  with assms(1) show ?thesis using that [of "Settled result"] by simp
qed


subsection \<open>The two calls, in any order\<close>

lemma pair_inv_swap:
  "pair_inv P text pubA privA pubB privB g0 offA offB a b g \<longleftrightarrow>
   pair_inv P text pubB privB pubA privA g0 offB offA b a g"
  by (auto simp add: pair_inv_def add.commute)

lemma step_first:
  assumes "pair_inv P text pubA privA pubB privB g0 offA offB a b g"
    and "rsa_key_pair P pubA privA" and "small_buffers_fit P" and "messages_fit P text"
  obtains a' g' offA' where "resume P a g = (a', g')"
    "pair_inv P text pubA privA pubB privB g0 offA' offB a' b g'"
    "awaits_left a' = awaits_left a - 1"
proof -
  let ?n = "used a + used b"
  from assms(1) have inv: "task_inv P text pubA privA g0 offA a"
    "task_inv P text pubB privB g0 offB b" "g = advance ?n g0"
    "\<forall>i. offA = Some i \<longrightarrow> i + 32 \<le> ?n" "\<forall>j. offB = Some j \<longrightarrow> j + 32 \<le> ?n"
    "\<forall>i j. offA = Some i \<and> offB = Some j \<longrightarrow> i + 32 \<le> j \<or> j + 32 \<le> i"
    by (simp_all add: pair_inv_def)
  let ?off = "case a of AwaitGenerateKey plaintext k \<Rightarrow> Some ?n | _ \<Rightarrow> offA"
  from resume_good [OF inv(1) assms(2-4), of ?n] obtain a' where
    r: "resume P a (advance ?n g0) = (a', advance (?n + (used a' - used a)) g0)"
      "used a \<le> used a'" "awaits_left a' = awaits_left a - 1"
      "task_inv P text pubA privA g0 ?off a'"
    by blast
  from r(2) have n': "?n + (used a' - used a) = used a' + used b" by simp
  have "pair_inv P text pubA privA pubB privB g0 ?off offB a' b (advance (used a' + used b) g0)"
  proof (cases "\<exists>plaintext k. a = AwaitGenerateKey plaintext k")
    case True
    then obtain plaintext k where a: "a = AwaitGenerateKey plaintext k" by blast
    with r(1) have a': "used a' = 32"
      by (auto simp add: getRandomValues_first split: prod.splits)
    from a a' inv(2,5) r(4) show ?thesis
      by (auto simp add: pair_inv_def)
  next
    case False
    then have "?off = offA" by (cases a) simp_all
    with inv r(2,4) show ?thesis
      by (auto simp add: pair_inv_def)
  qed
  with r(1,3) n' inv(3) show ?thesis using that by simp
qed

lemma step_second:
  assumes "pair_inv P text pubA privA pubB privB g0 offA offB a b g"
    and "rsa_key_pair P pubB privB" and "small_buffers_fit P" and "messages_fit P text"
  obtains b' g' offB' where "resume P b g = (b', g')"
    "pair_inv P text pubA privA pubB privB g0 offA offB' a b' g'"
    "awaits_left b' = awaits_left b - 1"
proof -
  from assms(1) have "pair_inv P text pubB privB pubA privA g0 offB offA b a g"
    by (simp add: pair_inv_swap)
  from step_first [OF this assms(2-4)] obtain b' g' offB' where
    "resume P b g = (b', g')" "pair_inv P text pubB privB pubA privA g0 offB' offA b' a g'"
    "awaits_left b' = awaits_left b - 1"
    by blast
  then show ?thesis using that by (simp add: pair_inv_swap)
qed

lemma settle_first:
  assumes "pair_inv P text pubA privA pubB privB g0 offA offB a b g"
    and "rsa_key_pair P pubA privA" and "small_buffers_fit P" and "messages_fit P text"
  obtains a' g' offA' where "settle P n a g = (a', g')"
    "pair_inv P text pubA privA pubB privB g0 offA' offB a' b g'"
    "awaits_left a' = awaits_left a - n"
  using assms(1)
proof (induction n arbitrary: a g offA thesis)
  case 0
  then show ?case by simp
next
  case (Suc n)
  from step_first [OF Suc.prems(2) assms(2-4)] obtain a1 g1 off1 where
    s: "resume P a g = (a1, g1)" "pair_inv P text pubA privA pubB privB g0 off1 offB a1 b g1"
      "awaits_left a1 = awaits_left a - 1"
    by blast
  from Suc.IH [OF _ s(2)] obtain a' g' offA' where
    "settle P n a1 g1 = (a', g')" "pair_inv P text pubA privA pubB privB g0 offA' offB a' b g'"
    "awaits_left a' = awaits_left a1 - n"
    by blast
  with s(1,3) show ?case using Suc.prems(1) [of a' g' offA'] by simp
qed

lemma settle_second:
  assumes "pair_inv P text pubA privA pubB privB g0 offA offB a b g"
    and "rsa_key_pair P pubB privB" and "small_buffers_fit P" and "messages_fit P text"
  obtains b' g' offB' where "settle P n b g = (b', g')"
    "pair_inv P text pubA privA pubB privB g0 offA offB' a b' g'"
    "awaits_left b' = awaits_left b - n"
proof -
  from assms(1) have "pair_inv P text pubB privB pubA privA g0 offB offA b a g"
    by (simp add: pair_inv_swap)
  from settle_first [OF this assms(2-4), of n] obtain b' g' offB' where
    "settle P n b g = (b', g')" "pair_inv P text pubB privB pubA privA g0 offB' offA b' a g'"
    "awaits_left b' = awaits_left b - n"
    by blast
  then show ?thesis using that by (simp add: pair_inv_swap)
qed

lemma awaits_left_bound: "awaits_left task \<le> 5"
  by (cases task) simp_all

lemma Promise_all_inv:
  assumes "rsa_key_pair P pubA privA" and "rsa_key_pair P pubB privB"
    and "small_buffers_fit P" and "messages_fit P text"
    and "pair_inv P text pubA privA pubB privB g0 offA offB a b g"
  obtains a' b' g' offA' offB' where "Promise_all P order (a, b) g = ((a', b'), g')"
    "pair_inv P text pubA privA pubB privB g0 offA' offB' a' b' g'"
    "awaits_left a' = 0" "awaits_left b' = 0"
  using assms(5)
proof (induction order arbitrary: a b g offA offB thesis)
  case Nil
  from settle_first [OF Nil.prems(2) assms(1,3,4), of 5] obtain a' g1 offA' where
    s1: "settle P 5 a g = (a', g1)" "pair_inv P text pubA privA pubB privB g0 offA' offB a' b g1"
      "awaits_left a' = awaits_left a - 5"
    by blast
  from settle_second [OF s1(2) assms(2,3,4), of 5] obtain b' g2 offB' where
    s2: "settle P 5 b g1 = (b', g2)" "pair_inv P text pubA privA pubB privB g0 offA' offB' a' b' g2"
      "awaits_left b' = awaits_left b - 5"
    by blast
  from s1(3) s2(3) awaits_left_bound [of a] awaits_left_bound [of b]
  have "awaits_left a' = 0" "awaits_left b' = 0" by simp_all
  with s1(1) s2(1,2) show ?case using Nil.prems(1) [of a' b' g2 offA' offB'] by simp
next
  case (Cons turn order)
  show ?case
  proof (cases turn)
    case True
    from step_first [OF Cons.prems(2) assms(1,3,4)] obtain a1 g1 off1 where
      s: "resume P a g = (a1, g1)" "pair_inv P text pubA privA pubB privB g0 off1 offB a1 b g1"
      by blast
    from Cons.IH [OF _ s(2)] obtain a' b' g' offA' offB' where
      "Promise_all P order (a1, b) g1 = ((a', b'), g')"
      "pair_inv P text pubA privA pubB privB g0 offA' offB' a' b' g'"
      "awaits_left a' = 0" "awaits_left b' = 0"
      by blast
    with s(1) True show ?thesis using Cons.prems(1) [of a' b' g' offA' offB'] by simp
  next
    case False
    from step_second [OF Cons.prems(2) assms(2,3,4)] obtain b1 g1 off1 where
      s: "resume P b g = (b1, g1)" "pair_inv P text pubA privA pubB privB g0 offA off1 a b1 g1"
      by blast
    from Cons.IH [OF _ s(2)] obtain a' b' g' offA' offB' where
      "Promise_all P order (a, b1) g1 = ((a', b'), g')"
      "pair_inv P text pubA privA pubB privB g0 offA' offB' a' b' g'"
      "awaits_left a' = 0" "awaits_left b' = 0"
      by blast
    with s(1) False show ?thesis using Cons.prems(1) [of a' b' g' offA' offB'] by simp
  qed
qed

lemma advance_zero: "advance 0 g = g"
  by (simp add: advance_def)

lemma settled_inv:
  assumes "task_inv P text pub priv g0 off task" and "awaits_left task = 0"
  obtains pkg i encKey where "task = Settled (Inr pkg)" "off = Some i"
    "b_encKey pkg = base64_of encKey" "rsa_oaep_decrypt P priv encKey = Some (draw g0 i 32)"
    "seals P pkg (draw g0 i 32) text"
proof -
  from assms(2) obtain result where "task = Settled result" by (cases task) simp_all
  with assms(1) show ?thesis using that by (cases result) auto
qed

lemma send_message_bundles:
  assumes "valid_key_pair P contactPublicKey contactPrivateKey"
    and "valid_key_pair P userPublicKey userPrivateKey"
    and "trim input \<noteq> []" and "\<not> sending"
    and "small_buffers_fit P" and "messages_fit P (trim input)"
  obtains forRecipient forSender i j where
    "sendMessage P order g input sending (Some contactPublicKey) userPublicKey =
       Posted forRecipient forSender"
    "wrapped_key P forRecipient contactPrivateKey = Some (draw g i 32)"
    "wrapped_key P forSender userPrivateKey = Some (draw g j 32)"
    "i + 32 \<le> j \<or> j + 32 \<le> i" "i + 32 \<le> 152" "j + 32 \<le> 152"
    "seals P forRecipient (draw g i 32) (trim input)"
    "seals P forSender (draw g j 32) (trim input)"
proof -
  let ?text = "trim input"
  from assms(1) obtain pubA privA where A: "base64ToArray contactPublicKey = Inr pubA"
    "base64ToArray contactPrivateKey = Inr privA" "rsa_key_pair P pubA privA"
    by (rule valid_key_pairE)
  from assms(2) obtain pubB privB where B: "base64ToArray userPublicKey = Inr pubB"
    "base64ToArray userPrivateKey = Inr privB" "rsa_key_pair P pubB privB"
    by (rule valid_key_pairE)
  let ?a = "encryptMessage_call P ?text contactPublicKey"
  let ?b = "encryptMessage_call P ?text userPublicKey"
  have "pair_inv P ?text pubA privA pubB privB g None None ?a ?b g"
    by (simp add: pair_inv_def encryptMessage_call_def A(1) B(1) advance_zero)
  from Promise_all_inv [OF A(3) B(3) assms(5,6) this, of order]
  obtain a' b' g' offA offB where
    run: "Promise_all P order (?a, ?b) g = ((a', b'), g')"
    and inv: "pair_inv P ?text pubA privA pubB privB g offA offB a' b' g'"
    and fin: "awaits_left a' = 0" "awaits_left b' = 0"
    by blast
  from inv have ta: "task_inv P ?text pubA privA g offA a'"
    and tb: "task_inv P ?text pubB privB g offB b'"
    by (simp_all add: pair_inv_def)
  from ta fin(1) obtain pkgA i encKeyA where a: "a' = Settled (Inr pkgA)" "offA = Some i"
    "b_encKey pkgA = base64_of encKeyA" "rsa_oaep_decrypt P privA encKeyA = Some (draw g i 32)"
    "seals P pkgA (draw g i 32) ?text"
    by (rule settled_inv)
  from tb fin(2) obtain pkgB j encKeyB where b: "b' = Settled (Inr pkgB)" "offB = Some j"
    "b_encKey pkgB = base64_of encKeyB" "rsa_oaep_decrypt P privB encKeyB = Some (draw g j 32)"
    "seals P pkgB (draw g j 32) ?text"
    by (rule settled_inv)
  from inv a(1,2) b(1,2) have pos: "i + 32 \<le> j \<or> j + 32 \<le> i" "i + 32 \<le> 152" "j + 32 \<le> 152"
    by (simp_all add: pair_inv_def)
  from A(3) B(3) have v: "pkcs8_valid P privA" "pkcs8_valid P privB"
    by (simp_all add: rsa_key_pair_def)
  have wa: "wrapped_key P pkgA contactPrivateKey = Some (draw g i 32)"
    by (simp add: wrapped_key_encKey [OF A(2) v(1) a(3)] a(4))
  have wb: "wrapped_key P pkgB userPrivateKey = Some (draw g j 32)"
    by (simp add: wrapped_key_encKey [OF B(2) v(2) b(3)] b(4))
  from assms(3,4) run a(1) b(1)
  have "sendMessage P order g input sending (Some contactPublicKey) userPublicKey = Posted pkgA pkgB"
    by (simp add: sendMessage_def Let_def)
  from that [OF this wa wb pos a(5) b(5)] show ?thesis .
qed

text \<open>
  Claim C5. When a message is sent, encryptMessage is called twice on the same text, the trimmed
  input: for the contact's public key and for the sender's own. Each call generates its own AES
  key inside the call, by a read of 32 bytes of the random source, and seals the text under it.
  In whatever order the steps of the two calls are taken, the two keys are read at two places of
  the source that do not overlap, within the 152 bytes that the two calls read; the bundle for
  the recipient wraps the one key and the bundle for the sender the other. So the two bundles
  wrap different symmetric keys whenever the source does not repeat a block of 32 bytes there.
  The text is one whose ciphertext the engine can encode.
\<close>

theorem send_message_keys:
  assumes "valid_key_pair P contactPublicKey contactPrivateKey"
    and "valid_key_pair P userPublicKey userPrivateKey"
    and "trim input \<noteq> []" and "\<not> sending"
    and "small_buffers_fit P" and "messages_fit P (trim input)"
    and "no_repeated_block g"
  shows "\<exists>forRecipient forSender i j.
      sendMessage P order g input sending (Some contactPublicKey) userPublicKey =
        Posted forRecipient forSender
    \<and> wrapped_key P forRecipient contactPrivateKey = Some (draw g i 32)
    \<and> wrapped_key P forSender userPrivateKey = Some (draw g j 32)
    \<and> (i + 32 \<le> j \<or> j + 32 \<le> i) \<and> i + 32 \<le> 152 \<and> j + 32 \<le> 152
    \<and> seals P forRecipient (draw g i 32) (trim input)
    \<and> seals P forSender (draw g j 32) (trim input)
    \<and> wrapped_key P forRecipient contactPrivateKey \<noteq> wrapped_key P forSender userPrivateKey"
proof -
  from assms(1-6) obtain forRecipient forSender i j where s:
    "sendMessage P order g input sending (Some contactPublicKey) userPublicKey =
       Posted forRecipient forSender"
    "wrapped_key P forRecipient contactPrivateKey = Some (draw g i 32)"
    "wrapped_key P forSender userPrivateKey = Some (draw g j 32)"
    "i + 32 \<le> j \<or> j + 32 \<le> i" "i + 32 \<le> 152" "j + 32 \<le> 152"
    "seals P forRecipient (draw g i 32) (trim input)"
    "seals P forSender (draw g j 32) (trim input)"
    by (rule send_message_bundles)
  from assms(7) s(4-6) have "draw g i 32 \<noteq> draw g j 32"
    unfolding no_repeated_block_def by metis
  with s show ?thesis by auto
qed

subsection \<open>The order in which the operations were started\<close>

text \<open>
  When the calls are resumed in turn, the key of the recipient's bundle is the first read of the
  source and the key of the sender's bundle the second: bytes 0 to 31 and 32 to 63. The two ivs
  follow, and then the two seeds.
\<close>

lemma settle_Settled: "settle P n (Settled result) g = (Settled result, g)"
  by (induction n) simp_all

lemma send_message_in_turn:
  assumes "valid_key_pair P contactPublicKey contactPrivateKey"
    and "valid_key_pair P userPublicKey userPrivateKey"
    and "trim input \<noteq> []" and "\<not> sending"
    and "small_buffers_fit P" and "messages_fit P (trim input)"
  shows "\<exists>forRecipient forSender.
      sendMessage P in_turn g input sending (Some contactPublicKey) userPublicKey =
        Posted forRecipient forSender
    \<and> wrapped_key P forRecipient contactPrivateKey = Some (draw g 0 32)
    \<and> wrapped_key P forSender userPrivateKey = Some (draw g 32 32)
    \<and> seals P forRecipient (draw g 0 32) (trim input)
    \<and> seals P forSender (draw g 32 32) (trim input)"
proof -
  let ?text = "trim input"
  from assms(1) obtain pubA privA where A: "base64ToArray contactPublicKey = Inr pubA"
    "base64ToArray contactPrivateKey = Inr privA" "rsa_key_pair P pubA privA"
    by (rule valid_key_pairE)
  from assms(2) obtain pubB privB where B: "base64ToArray userPublicKey = Inr pubB"
    "base64ToArray userPrivateKey = Inr privB" "rsa_key_pair P pubB privB"
    by (rule valid_key_pairE)
  from A(3) B(3) have v: "spki_valid P pubA" "spki_valid P pubB" "pkcs8_valid P privA"
    "pkcs8_valid P privB"
    by (simp_all add: rsa_key_pair_def)
  from A(3) obtain encKeyA where eA: "rsa_oaep_encrypt P pubA (draw g 88 32) (draw g 0 32) = Some encKeyA"
    "rsa_oaep_decrypt P privA encKeyA = Some (draw g 0 32)"
    by (rule rsa_key_pairE [where seed = "draw g 88 32" and m = "draw g 0 32"])
       (simp_all add: length_draw)
  from B(3) obtain encKeyB where eB: "rsa_oaep_encrypt P pubB (draw g 120 32) (draw g 32 32) = Some encKeyB"
    "rsa_oaep_decrypt P privB encKeyB = Some (draw g 32 32)"
    by (rule rsa_key_pairE [where seed = "draw g 120 32" and m = "draw g 32 32"])
       (simp_all add: length_draw)
  let ?ctA = "aes_gcm_encrypt P (draw g 0 32) (draw g 64 12) (TextEncoder_encode ?text)"
  let ?ctB = "aes_gcm_encrypt P (draw g 32 32) (draw g 76 12) (TextEncoder_encode ?text)"
  have f: "within_argument_limit P encKeyA" "within_argument_limit P encKeyB"
    "within_argument_limit P ?ctA" "within_argument_limit P ?ctB"
    "within_argument_limit P (draw g 64 12)" "within_argument_limit P (draw g 76 12)"
  proof -
    show "within_argument_limit P encKeyA"
      by (rule small_buffers_fitD(3) [OF assms(5) v(1) _ _ eA(1)]) (simp_all add: length_draw)
    show "within_argument_limit P encKeyB"
      by (rule small_buffers_fitD(3) [OF assms(5) v(2) _ _ eB(1)]) (simp_all add: length_draw)
    from assms(6) show "within_argument_limit P ?ctA" "within_argument_limit P ?ctB"
      by (simp_all add: messages_fit_def length_draw)
    from small_buffers_fitD(2) [OF assms(5)]
    show "within_argument_limit P (draw g 64 12)" "within_argument_limit P (draw g 76 12)"
      by (simp_all add: within_argument_limit_def length_draw)
  qed
  let ?R = "\<lparr>b_ciphertext = base64_of ?ctA, b_encKey = base64_of encKeyA,
      b_iv = base64_of (draw g 64 12)\<rparr>"
  let ?S = "\<lparr>b_ciphertext = base64_of ?ctB, b_encKey = base64_of encKeyB,
      b_iv = base64_of (draw g 76 12)\<rparr>"
  have "Promise_all P in_turn
      (encryptMessage_call P ?text contactPublicKey, encryptMessage_call P ?text userPublicKey) g
      = ((Settled (Inr ?R), Settled (Inr ?S)), advance 152 g)"
    by (simp add: in_turn_def encryptMessage_call_def A(1) B(1) v getRandomValues_first
        draw_of_advance advance_advance eA(1) eB(1) arrayToBase64_eq f settle_Settled)
  with assms(3,4)
  have "sendMessage P in_turn g input sending (Some contactPublicKey) userPublicKey = Posted ?R ?S"
    by (simp add: sendMessage_def Let_def)
  moreover have "wrapped_key P ?R contactPrivateKey = Some (draw g 0 32)"
    by (simp add: wrapped_key_eq [OF A(2) v(3)] eA(2))
  moreover have "wrapped_key P ?S userPrivateKey = Some (draw g 32 32)"
    by (simp add: wrapped_key_eq [OF B(2) v(4)] eB(2))
  moreover have "seals P ?R (draw g 0 32) ?text" by (rule seals_made)
  moreover have "seals P ?S (draw g 32 32) ?text" by (rule seals_made)
  ultimately show ?thesis by blast
qed

subsection \<open>Concrete runs\<close>

lemma demo_messages_fit:
  assumes "\<forall>u \<in> set text. unat u < 0x80" and "length text \<le> 65000"
  shows "messages_fit (demo_platform book) text"
  using assms
  by (simp add: messages_fit_def demo_within_limit demo_aes_length length_encode_ascii)

lemma count_rng_no_repeat: "no_repeated_block count_rng"
  unfolding no_repeated_block_def
proof (intro allI impI)
  fix i j :: nat
  assume b: "i + 32 \<le> j \<and> j + 32 \<le> 152"
  show "draw count_rng i 32 \<noteq> draw count_rng j 32"
  proof
    assume "draw count_rng i 32 = draw count_rng j 32"
    then have "draw count_rng i 32 ! 0 = draw count_rng j 32 ! 0" by simp
    then have "(of_nat i :: byte) = of_nat j" by (simp add: draw_nth count_rng_def)
    then have "unat (of_nat i :: byte) = unat (of_nat j :: byte)" by simp
    moreover from b have "i < 256" "j < 256" by simp_all
    ultimately have "i = j" by (simp add: unat_of_nat)
    with b show False by simp
  qed
qed

lemma trim_hi: "trim (js ''  hi '') = js ''hi''"
  by (simp add: trim_def js_def white_space_def line_terminator_def)

theorem send_message_keys_witness:
  "valid_key_pair (demo_platform []) demo_publicKey demo_privateKey
   \<and> valid_key_pair (demo_platform []) demo_senderPublicKey demo_senderPrivateKey
   \<and> trim (js ''  hi '') \<noteq> []
   \<and> \<not> False
   \<and> small_buffers_fit (demo_platform [])
   \<and> messages_fit (demo_platform []) (trim (js ''  hi ''))
   \<and> no_repeated_block count_rng
   \<and> (\<exists>forRecipient forSender i j.
        sendMessage (demo_platform []) in_turn count_rng (js ''  hi '') False (Some demo_publicKey)
            demo_senderPublicKey = Posted forRecipient forSender
        \<and> wrapped_key (demo_platform []) forRecipient demo_privateKey = Some (draw count_rng i 32)
        \<and> wrapped_key (demo_platform []) forSender demo_senderPrivateKey = Some (draw count_rng j 32)
        \<and> (i + 32 \<le> j \<or> j + 32 \<le> i) \<and> i + 32 \<le> 152 \<and> j + 32 \<le> 152
        \<and> seals (demo_platform []) forRecipient (draw count_rng i 32) (trim (js ''  hi ''))
        \<and> seals (demo_platform []) forSender (draw count_rng j 32) (trim (js ''  hi ''))
        \<and> wrapped_key (demo_platform []) forRecipient demo_privateKey
            \<noteq> wrapped_key (demo_platform []) forSender demo_senderPrivateKey)"
proof -
  have ne: "trim (js ''  hi '') \<noteq> []" unfolding trim_hi by (simp add: js_def)
  have fit: "messages_fit (demo_platform []) (trim (js ''  hi ''))"
    unfolding trim_hi by (rule demo_messages_fit) (simp_all add: js_def)
  have ns: "\<not> False" by simp
  from send_message_keys [where P = "demo_platform []" and g = count_rng and order = in_turn
      and sending = False,
      OF demo_keys_valid demo_sender_keys_valid ne ns demo_small_buffers_fit fit count_rng_no_repeat]
    demo_keys_valid [of "[]"] demo_sender_keys_valid [of "[]"] ne demo_small_buffers_fit [of "[]"]
    fit count_rng_no_repeat
  show ?thesis by (simp only: simp_thms)
qed

text \<open>
  The hypothesis on the source is needed: when the source returns the same bytes again, here
  zeros throughout, the two bundles wrap the same key.
\<close>

lemma send_message_repeating_source:
  "\<exists>forRecipient forSender.
      sendMessage (demo_platform []) in_turn stuck_rng (js ''  hi '') False (Some demo_publicKey)
          demo_senderPublicKey = Posted forRecipient forSender
    \<and> wrapped_key (demo_platform []) forRecipient demo_privateKey
        = wrapped_key (demo_platform []) forSender demo_senderPrivateKey"
proof -
  have ne: "trim (js ''  hi '') \<noteq> []" unfolding trim_hi by (simp add: js_def)
  have fit: "messages_fit (demo_platform []) (trim (js ''  hi ''))"
    unfolding trim_hi by (rule demo_messages_fit) (simp_all add: js_def)
  have ns: "\<not> False" by simp
  have "draw stuck_rng off 32 = replicate 32 0" for off
    by (rule nth_equalityI) (simp_all add: draw_def stuck_rng_def)
  then have "draw stuck_rng 0 32 = draw stuck_rng 32 32" by simp
  with send_message_in_turn [where P = "demo_platform []" and g = stuck_rng and sending = False,
      OF demo_keys_valid demo_sender_keys_valid ne ns demo_small_buffers_fit fit]
  show ?thesis by auto
qed

section \<open>Backup envelopes\<close>

lemma get_prop_error: "get_prop v name = Inl e \<Longrightarrow> e = TypeError"
  by (cases v) simp_all


lemma backup_envelope_payload:
  assumes "backup_payload backupData"
    and "16 \<le> argument_limit P"
    and "within_argument_limit P
           (aes_gcm_encrypt P (deriveBackupKey P backupPassword (draw g 0 16)) (draw g 16 12)
              (TextEncoder_encode (json_stringify P 0 backupData)))"
  shows "\<exists>stats owner. backup_envelope P g now backupData backupPassword =
        Inr (backup_pkg now (base64_of (draw g 0 16)) (base64_of (draw g 16 12))
               (base64_of (aes_gcm_encrypt P (deriveBackupKey P backupPassword (draw g 0 16)) (draw g 16 12)
                  (TextEncoder_encode (json_stringify P 0 backupData)))) stats owner,
             advance 28 g)"
proof -
  from assms(1) obtain props owner where d: "backupData = JObj props"
    "map_of props (js ''owner'') = Some owner" "owner \<noteq> JNull"
    by (auto simp add: backup_payload_def split: json.splits option.splits)
  from d(3) obtain u where "get_prop owner (js ''username'') = Inr u"
    by (cases owner) simp_all
  with d assms(2,3) show ?thesis
    by (simp add: backup_envelope_def getRandomValues_first draw_of_advance advance_advance Let_def
        arrayToBase64_eq within_argument_limit_def length_draw)
       blast
qed

lemma backup_envelope_too_long:
  assumes "16 \<le> argument_limit P"
    and "\<not> within_argument_limit P
           (aes_gcm_encrypt P (deriveBackupKey P backupPassword (draw g 0 16)) (draw g 16 12)
              (TextEncoder_encode (json_stringify P 0 backupData)))"
  shows "encryptBackup P g now backupData backupPassword = Inl RangeError"
  using assms
  by (simp add: encryptBackup_def backup_envelope_def getRandomValues_first draw_of_advance
      advance_advance Let_def arrayToBase64_eq within_argument_limit_def length_draw)

lemma backup_pkg_props:
  "get_prop (backup_pkg now salt iv ciphertext stats owner) (js ''magic'') = Inr (Some (JStr BACKUP_MAGIC))"
  "get_prop (backup_pkg now salt iv ciphertext stats owner) (js ''salt'') = Inr (Some (JStr salt))"
  "get_prop (backup_pkg now salt iv ciphertext stats owner) (js ''iv'') = Inr (Some (JStr iv))"
  "get_prop (backup_pkg now salt iv ciphertext stats owner) (js ''ciphertext'') =
     Inr (Some (JStr ciphertext))"
  by (simp_all add: backup_pkg_def js_def)

lemma decryptBackup_try_pkg:
  "decryptBackup_try P
     (backup_pkg now (base64_of salt) (base64_of iv) (base64_of ciphertext) stats owner) password =
     ([ImportKey, DeriveKey, Decrypt],
      case aes_gcm_decrypt P (deriveBackupKey P password salt) iv ciphertext of
        None \<Rightarrow> Inl OperationError
      | Some decrypted \<Rightarrow>
          (case json_parse P (TextDecoder_decode decrypted) of
             None \<Rightarrow> Inl SyntaxError
           | Some v \<Rightarrow> Inr v))"
  by (simp add: decryptBackup_try_def backup_pkg_props ToString_arg_def base64_roundtrip
      split: option.splits)

lemma decryptBackup_pkg:
  assumes "json_parse P file =
      Some (backup_pkg now (base64_of salt) (base64_of iv) (base64_of ciphertext) stats owner)"
  shows "decryptBackup P file password =
     (case aes_gcm_decrypt P (deriveBackupKey P password salt) iv ciphertext of
        None \<Rightarrow> Inl WrongBackupPassword
      | Some decrypted \<Rightarrow>
          (case json_parse P (TextDecoder_decode decrypted) of
             None \<Rightarrow> Inl WrongBackupPassword
           | Some v \<Rightarrow> Inr v))"
  using assms
  by (simp add: decryptBackup_def decryptBackup_run_def backup_pkg_props decryptBackup_try_pkg
      split: option.splits)

lemma decode_encoded_eq:
  assumes "backup_payload payload"
    and "\<forall>pkg g'. backup_envelope P g now payload password = Inr (pkg, g') \<longrightarrow>
           json_reads_back P 2 pkg"
    and "16 \<le> argument_limit P"
    and "within_argument_limit P
           (aes_gcm_encrypt P (deriveBackupKey P password (draw g 0 16)) (draw g 16 12)
              (TextEncoder_encode (json_stringify P 0 payload)))"
  shows "decode_encoded P g now payload password other =
     (case aes_gcm_decrypt P (deriveBackupKey P other (draw g 0 16)) (draw g 16 12)
             (aes_gcm_encrypt P (deriveBackupKey P password (draw g 0 16)) (draw g 16 12)
                (TextEncoder_encode (json_stringify P 0 payload))) of
        None \<Rightarrow> Inl WrongBackupPassword
      | Some decrypted \<Rightarrow>
          (case json_parse P (TextDecoder_decode decrypted) of
             None \<Rightarrow> Inl WrongBackupPassword
           | Some v \<Rightarrow> Inr v))"
proof -
  let ?ct = "aes_gcm_encrypt P (deriveBackupKey P password (draw g 0 16)) (draw g 16 12)
                (TextEncoder_encode (json_stringify P 0 payload))"
  from backup_envelope_payload [OF assms(1,3,4)] obtain stats owner where
    env: "backup_envelope P g now payload password =
        Inr (backup_pkg now (base64_of (draw g 0 16)) (base64_of (draw g 16 12)) (base64_of ?ct) stats owner, advance 28 g)"
    by blast
  with assms(2) have "json_reads_back P 2 (backup_pkg now (base64_of (draw g 0 16)) (base64_of (draw g 16 12)) (base64_of ?ct) stats owner)"
    by blast
  then have "json_parse P (json_stringify P 2 (backup_pkg now (base64_of (draw g 0 16)) (base64_of (draw g 16 12)) (base64_of ?ct) stats owner))
      = Some (backup_pkg now (base64_of (draw g 0 16)) (base64_of (draw g 16 12)) (base64_of ?ct) stats owner)"
    by (simp add: json_reads_back_def)
  from decryptBackup_pkg [OF this] env show ?thesis
    by (simp add: decode_encoded_def encryptBackup_def)
qed

lemma decode_same_key:
  assumes "aes_gcm_correct P"
    and "backup_payload payload"
    and "json_reads_back P 0 payload"
    and "text_roundtrip (json_stringify P 0 payload)"
    and "\<forall>pkg g'. backup_envelope P g now payload password = Inr (pkg, g') \<longrightarrow>
           json_reads_back P 2 pkg"
    and "16 \<le> argument_limit P"
    and "within_argument_limit P
           (aes_gcm_encrypt P (deriveBackupKey P password (draw g 0 16)) (draw g 16 12)
              (TextEncoder_encode (json_stringify P 0 payload)))"
    and "deriveBackupKey P other (draw g 0 16) = deriveBackupKey P password (draw g 0 16)"
  shows "decode_encoded P g now payload password other = Inr payload"
proof -
  from assms(3) have "json_parse P (json_stringify P 0 payload) = Some payload"
    by (simp add: json_reads_back_def)
  with assms(1,8) show ?thesis
    by (simp add: decode_encoded_eq [OF assms(2,5,6,7)] aes_gcm_correct_def
        TextDecoder_TextEncoder_id [OF assms(4)])
qed

text \<open>
  Claim C3, as amended. For every backup payload that has an owner object and whose ciphertext
  the engine can encode (it has no more bytes than a call takes arguments, and the 16-byte salt
  fits as well), decoding the file that encode made with the same password returns the payload,
  given that JSON.parse reads back what JSON.stringify wrote (for the payload and for the
  envelope) and that the payload's JSON text is well-formed UTF-16 without a leading U+FEFF. Decoding with another password fails with
  the wrong-backup-password error whenever AES-GCM rejects the envelope's ciphertext under the
  key derived from that password, and returns the payload whenever the other password derives
  the same key.
\<close>

theorem decode_encoded_backup:
  assumes "aes_gcm_correct P"
    and "backup_payload payload"
    and "json_reads_back P 0 payload"
    and "text_roundtrip (json_stringify P 0 payload)"
    and "\<forall>pkg g'. backup_envelope P g now payload password = Inr (pkg, g') \<longrightarrow>
           json_reads_back P 2 pkg"
    and "16 \<le> argument_limit P"
    and "within_argument_limit P
           (aes_gcm_encrypt P (deriveBackupKey P password (draw g 0 16)) (draw g 16 12)
              (TextEncoder_encode (json_stringify P 0 payload)))"
  shows "decode_encoded P g now payload password password = Inr payload
       \<and> (aes_gcm_decrypt P (deriveBackupKey P other (draw g 0 16)) (draw g 16 12)
             (aes_gcm_encrypt P (deriveBackupKey P password (draw g 0 16)) (draw g 16 12)
                (TextEncoder_encode (json_stringify P 0 payload))) = None \<longrightarrow>
            decode_encoded P g now payload password other = Inl WrongBackupPassword)
       \<and> (deriveBackupKey P other (draw g 0 16) = deriveBackupKey P password (draw g 0 16) \<longrightarrow>
            decode_encoded P g now payload password other = Inr payload)"
proof -
  have wrong: "decode_encoded P g now payload password other = Inl WrongBackupPassword"
    if "aes_gcm_decrypt P (deriveBackupKey P other (draw g 0 16)) (draw g 16 12)
             (aes_gcm_encrypt P (deriveBackupKey P password (draw g 0 16)) (draw g 16 12)
                (TextEncoder_encode (json_stringify P 0 payload))) = None"
    using that by (simp add: decode_encoded_eq [OF assms(2,5,6,7)])
  from decode_same_key [OF assms refl] decode_same_key [OF assms, of other] wrong
  show ?thesis by blast
qed


section \<open>Decoding a backup file\<close>

lemma decryptBackup_run_fields:
  assumes "json_parse P file = Some pkg"
    and "get_prop pkg (js ''magic'') = Inr (Some (JStr BACKUP_MAGIC))"
    and "get_prop pkg (js ''salt'') = Inr (Some (JStr (base64_of salt)))"
    and "get_prop pkg (js ''iv'') = Inr (Some (JStr (base64_of iv)))"
    and "get_prop pkg (js ''ciphertext'') = Inr (Some (JStr (base64_of ciphertext)))"
  shows "decryptBackup_run P file password =
     ([ImportKey, DeriveKey, Decrypt],
      case aes_gcm_decrypt P (deriveBackupKey P password salt) iv ciphertext of
        None \<Rightarrow> Inl WrongBackupPassword
      | Some decrypted \<Rightarrow>
          (case json_parse P (TextDecoder_decode decrypted) of
             None \<Rightarrow> Inl WrongBackupPassword
           | Some v \<Rightarrow> Inr v))"
  using assms
  by (simp add: decryptBackup_run_def decryptBackup_try_def ToString_arg_def base64_roundtrip
      split: option.splits)

lemma demo_stringify_payload:
  "json_stringify (demo_platform (demo_book version password)) indent demo_payload = js ''payload''"
  by (simp add: demo_platform_def demo_stringify_def demo_book_def)

lemma demo_payload_envelope: "demo_payload \<noteq> demo_envelope version password"
  by (simp add: demo_payload_def demo_envelope_def js_def)

lemma demo_stringify_envelope:
  "json_stringify (demo_platform (demo_book version password)) indent (demo_envelope version password)
     = js ''file''"
  using demo_payload_envelope [of version password]
  by (simp add: demo_platform_def demo_stringify_def demo_book_def)

lemma demo_parse:
  "json_parse (demo_platform (demo_book version password)) (js ''payload'') = Some demo_payload"
  "json_parse (demo_platform (demo_book version password)) (js ''file'') =
     Some (demo_envelope version password)"
  by (simp_all add: demo_platform_def demo_book_def js_def)

lemma demo_payload_ok: "backup_payload demo_payload"
  by (simp add: backup_payload_def demo_payload_def js_def)

lemma demo_envelope_pkg:
  "demo_envelope (js ''1.0'') password =
     backup_pkg (js ''2024-01-02T00:00:00.000Z'') (base64_of (draw demo_rng 0 16))
       (base64_of (draw demo_rng 16 12))
       (base64_of
          (demo_aes_encrypt (demo_stretch 32 (TextEncoder_encode password @ draw demo_rng 0 16))
             (draw demo_rng 16 12) (TextEncoder_encode (js ''payload''))))
       (Some demo_stats) (Some (JStr (js ''alice'')))"
  by (simp add: demo_envelope_def backup_pkg_def optional_field_def)

lemma demo_backup_envelope:
  "backup_envelope (demo_platform (demo_book version password')) demo_rng
       (js ''2024-01-02T00:00:00.000Z'') demo_payload password =
     Inr (demo_envelope (js ''1.0'') password, advance 28 demo_rng)"
proof -
  have props: "get_prop demo_payload (js ''stats'') = Inr (Some demo_stats)"
    "get_prop demo_payload (js ''owner'') =
       Inr (Some (JObj [(js ''username'', JStr (js ''alice'')), (js ''publicKey'', JStr demo_publicKey)]))"
    by (simp_all add: demo_payload_def js_def)
  have user: "get_prop (JObj [(js ''username'', JStr (js ''alice'')), (js ''publicKey'', JStr demo_publicKey)])
      (js ''username'') = Inr (Some (JStr (js ''alice'')))"
    by simp
  have fits: "within_argument_limit (demo_platform (demo_book version password'))
      (aes_gcm_encrypt (demo_platform (demo_book version password'))
         (demo_stretch 32 (TextEncoder_encode password @ draw demo_rng 0 16))
         (draw demo_rng 16 12) (TextEncoder_encode (js ''payload'')))"
    by (simp add: demo_within_limit demo_aes_length length_demo_stretch length_draw
        length_encode_ascii js_def)
  then have fits': "length (demo_aes_encrypt
         (demo_stretch 32 (TextEncoder_encode password @ draw demo_rng 0 16))
         (draw demo_rng 16 12) (TextEncoder_encode (js ''payload''))) \<le> 65535"
    by (simp add: demo_within_limit) (simp add: demo_platform_def)
  show ?thesis
    unfolding backup_envelope_def getRandomValues_first
    by (simp add: props user demo_stringify_payload demo_envelope_pkg demo_deriveBackupKey
        draw_of_advance advance_advance Let_def arrayToBase64_eq fits demo_within_limit length_draw)
       (simp add: demo_platform_def fits')
qed

lemma demo_backup_fits:
  "within_argument_limit (demo_platform (demo_book version password'))
     (aes_gcm_encrypt (demo_platform (demo_book version password'))
        (deriveBackupKey (demo_platform (demo_book version password')) password (draw demo_rng 0 16))
        (draw demo_rng 16 12)
        (TextEncoder_encode (json_stringify (demo_platform (demo_book version password')) 0 demo_payload)))"
  by (simp add: demo_within_limit demo_aes_length demo_deriveBackupKey length_demo_stretch
      length_draw demo_stringify_payload length_encode_ascii js_def)

lemma demo_pkg_reads_back:
  "\<forall>pkg g'. backup_envelope (demo_platform (demo_book (js ''1.0'') password)) demo_rng
       (js ''2024-01-02T00:00:00.000Z'') demo_payload password = Inr (pkg, g') \<longrightarrow>
     json_reads_back (demo_platform (demo_book (js ''1.0'') password)) 2 pkg"
  by (simp add: demo_backup_envelope json_reads_back_def demo_stringify_envelope demo_parse)

lemma demo_payload_reads_back:
  "json_reads_back (demo_platform (demo_book version password)) 0 demo_payload"
  by (simp add: json_reads_back_def demo_stringify_payload demo_parse)

lemma demo_payload_text:
  "text_roundtrip (json_stringify (demo_platform (demo_book version password)) 0 demo_payload)"
  unfolding demo_stringify_payload by (rule ascii_text_roundtrip) (simp add: js_def)

theorem decode_encoded_backup_witness:
  "aes_gcm_correct (demo_platform (demo_book (js ''1.0'') (js ''backup123'')))
   \<and> backup_payload demo_payload
   \<and> json_reads_back (demo_platform (demo_book (js ''1.0'') (js ''backup123''))) 0 demo_payload
   \<and> 16 \<le> argument_limit (demo_platform (demo_book (js ''1.0'') (js ''backup123'')))
   \<and> within_argument_limit (demo_platform (demo_book (js ''1.0'') (js ''backup123'')))
        (aes_gcm_encrypt (demo_platform (demo_book (js ''1.0'') (js ''backup123'')))
           (deriveBackupKey (demo_platform (demo_book (js ''1.0'') (js ''backup123'')))
              (js ''backup123'') (draw demo_rng 0 16))
           (draw demo_rng 16 12)
           (TextEncoder_encode
              (json_stringify (demo_platform (demo_book (js ''1.0'') (js ''backup123''))) 0
                 demo_payload)))
   \<and> decode_encoded (demo_platform (demo_book (js ''1.0'') (js ''backup123''))) demo_rng
        (js ''2024-01-02T00:00:00.000Z'') demo_payload (js ''backup123'') (js ''backup123'')
       = Inr demo_payload
   \<and> decode_encoded (demo_platform (demo_book (js ''1.0'') (js ''backup123''))) demo_rng
        (js ''2024-01-02T00:00:00.000Z'') demo_payload (js ''backup123'') (js ''backup124'')
       = Inl WrongBackupPassword"
proof -
  let ?P = "demo_platform (demo_book (js ''1.0'') (js ''backup123''))"
  have keys: "deriveBackupKey ?P (js ''backup124'') (draw demo_rng 0 16)
      \<noteq> deriveBackupKey ?P (js ''backup123'') (draw demo_rng 0 16)"
    by (simp add: demo_deriveBackupKey demo_stretch_def js_def TextEncoder_encode_def utf8_bytes_def
        is_high_surrogate_def is_low_surrogate_def)
  have rej: "aes_gcm_decrypt ?P (deriveBackupKey ?P (js ''backup124'') (draw demo_rng 0 16))
      (draw demo_rng 16 12)
      (aes_gcm_encrypt ?P (deriveBackupKey ?P (js ''backup123'') (draw demo_rng 0 16))
         (draw demo_rng 16 12) (TextEncoder_encode (json_stringify ?P 0 demo_payload))) = None"
    using keys
    by (simp add: demo_platform_def demo_aes_other_key deriveBackupKey_def length_demo_stretch)
  have l: "16 \<le> argument_limit ?P" by (simp add: demo_argument_limit)
  from decode_encoded_backup [where P = ?P and g = demo_rng and other = "js ''backup124''",
      OF demo_aes_correct demo_payload_ok demo_payload_reads_back demo_payload_text
        demo_pkg_reads_back l demo_backup_fits]
    rej demo_aes_correct [of "demo_book (js ''1.0'') (js ''backup123'')"] demo_payload_ok
    demo_payload_reads_back [of "js ''1.0''" "js ''backup123''"] l
    demo_backup_fits [of "js ''1.0''" "js ''backup123''" "js ''backup123''"]
  show ?thesis by simp
qed


text \<open>
  The claim as stated fails for another password with the same UTF-8 encoding: a backup made
  under the password U+FFFD is decoded under the unpaired surrogate U+D800.
\<close>

theorem decode_other_password_counterexample:
  "decode_encoded (demo_platform (demo_book (js ''1.0'') [0xFFFD])) demo_rng
     (js ''2024-01-02T00:00:00.000Z'') demo_payload [0xFFFD] [0xD800] = Inr demo_payload
   \<and> [0xFFFD] \<noteq> [0xD800 :: code_unit]"
proof -
  let ?P = "demo_platform (demo_book (js ''1.0'') [0xFFFD])"
  have enc: "TextEncoder_encode [0xD800] = TextEncoder_encode [0xFFFD]"
    by (simp add: TextEncoder_encode_def is_high_surrogate_def is_low_surrogate_def)
  have k: "deriveBackupKey ?P [0xD800] (draw demo_rng 0 16) = deriveBackupKey ?P [0xFFFD] (draw demo_rng 0 16)"
    by (simp add: deriveBackupKey_def enc)
  have l: "16 \<le> argument_limit ?P" by (simp add: demo_argument_limit)
  from decode_same_key [OF demo_aes_correct demo_payload_ok demo_payload_reads_back
      demo_payload_text demo_pkg_reads_back l demo_backup_fits k]
  show ?thesis by simp
qed

lemma decryptBackup_run_magic:
  assumes "json_parse P doc = Some pkg" "pkg \<noteq> JNull"
    and "get_prop pkg (js ''magic'') \<noteq> Inr (Some (JStr BACKUP_MAGIC))"
  shows "decryptBackup_run P doc password = ([], Inl NotACipherChatBackup)"
proof -
  from assms(2) obtain m where "get_prop pkg (js ''magic'') = Inr m" by (cases pkg) simp_all
  with assms show ?thesis by (auto simp add: decryptBackup_run_def)
qed

lemma decryptBackup_run_ops:
  assumes "fst (decryptBackup_run P doc password) \<noteq> []"
  shows "\<exists>pkg. json_parse P doc = Some pkg
          \<and> get_prop pkg (js ''magic'') = Inr (Some (JStr BACKUP_MAGIC))"
  using assms by (auto simp add: decryptBackup_run_def split: option.splits sum.splits if_splits)

text \<open>
  Claim C4, as amended. decryptBackup checks the magic string, and only the magic string, before
  any SubtleCrypto call: a document that does not parse fails with the could-not-parse error and
  a parsed document other than null whose magic field is not the backup magic fails with the
  not-a-backup error, in both cases with no key import, key derivation or decryption run; and
  whenever such a call was made, the document had parsed and its magic had matched. The version
  field is never read.
\<close>

theorem magic_validated_first:
  "(json_parse P doc = None \<longrightarrow> decryptBackup_run P doc password = ([], Inl InvalidBackupJSON))
   \<and> (\<forall>pkg. json_parse P doc = Some pkg \<and> pkg \<noteq> JNull
          \<and> get_prop pkg (js ''magic'') \<noteq> Inr (Some (JStr BACKUP_MAGIC)) \<longrightarrow>
        decryptBackup_run P doc password = ([], Inl NotACipherChatBackup))
   \<and> (fst (decryptBackup_run P doc password) \<noteq> [] \<longrightarrow>
        (\<exists>pkg. json_parse P doc = Some pkg
           \<and> get_prop pkg (js ''magic'') = Inr (Some (JStr BACKUP_MAGIC))))"
proof (intro conjI impI allI)
  assume "json_parse P doc = None"
  then show "decryptBackup_run P doc password = ([], Inl InvalidBackupJSON)"
    by (simp add: decryptBackup_run_def)
next
  fix pkg
  assume "json_parse P doc = Some pkg \<and> pkg \<noteq> JNull
          \<and> get_prop pkg (js ''magic'') \<noteq> Inr (Some (JStr BACKUP_MAGIC))"
  then show "decryptBackup_run P doc password = ([], Inl NotACipherChatBackup)"
    by (simp add: decryptBackup_run_magic)
next
  assume "fst (decryptBackup_run P doc password) \<noteq> []"
  then show "\<exists>pkg. json_parse P doc = Some pkg
           \<and> get_prop pkg (js ''magic'') = Inr (Some (JStr BACKUP_MAGIC))"
    by (rule decryptBackup_run_ops)
qed

lemma demo_envelope_props:
  "get_prop (demo_envelope version password) (js ''magic'') = Inr (Some (JStr BACKUP_MAGIC))"
  "get_prop (demo_envelope version password) (js ''version'') = Inr (Some (JStr version))"
  "get_prop (demo_envelope version password) (js ''salt'') =
     Inr (Some (JStr (base64_of (draw demo_rng 0 16))))"
  "get_prop (demo_envelope version password) (js ''iv'') =
     Inr (Some (JStr (base64_of (draw demo_rng 16 12))))"
  "get_prop (demo_envelope version password) (js ''ciphertext'') =
     Inr (Some (JStr (base64_of
       (demo_aes_encrypt (demo_stretch 32 (TextEncoder_encode password @ draw demo_rng 0 16))
          (draw demo_rng 16 12) (TextEncoder_encode (js ''payload''))))))"
  by (simp_all add: demo_envelope_def js_def)

lemma demo_decryptBackup_run:
  "decryptBackup_run (demo_platform (demo_book version password)) (js ''file'') password =
     ([ImportKey, DeriveKey, Decrypt], Inr demo_payload)"
proof -
  let ?P = "demo_platform (demo_book version password)"
  have t: "text_roundtrip (js ''payload'')" by (rule ascii_text_roundtrip) (simp add: js_def)
  have open_: "aes_gcm_decrypt ?P (deriveBackupKey ?P password (draw demo_rng 0 16)) (draw demo_rng 16 12)
      (demo_aes_encrypt (demo_stretch 32 (TextEncoder_encode password @ draw demo_rng 0 16))
          (draw demo_rng 16 12) (TextEncoder_encode (js ''payload'')))
      = Some (TextEncoder_encode (js ''payload''))"
    by (simp add: demo_deriveBackupKey demo_aes_decrypt_encrypt) (simp add: demo_platform_def
        demo_aes_decrypt_encrypt)
  show ?thesis
    unfolding decryptBackup_run_fields [OF demo_parse(2) demo_envelope_props(1,3,4,5)]
    by (simp only: open_ option.case TextDecoder_TextEncoder_id [OF t] demo_parse(1))
qed

theorem magic_validated_first_witness:
  "json_parse (demo_platform [(js ''notes'', demo_other_document)]) (js ''garbage'') = None
   \<and> decryptBackup_run (demo_platform [(js ''notes'', demo_other_document)]) (js ''garbage'') (js ''pw'')
       = ([], Inl InvalidBackupJSON)
   \<and> json_parse (demo_platform [(js ''notes'', demo_other_document)]) (js ''notes'')
       = Some demo_other_document
   \<and> demo_other_document \<noteq> JNull
   \<and> get_prop demo_other_document (js ''magic'') \<noteq> Inr (Some (JStr BACKUP_MAGIC))
   \<and> decryptBackup_run (demo_platform [(js ''notes'', demo_other_document)]) (js ''notes'') (js ''pw'')
       = ([], Inl NotACipherChatBackup)
   \<and> fst (decryptBackup_run (demo_platform (demo_book (js ''1.0'') (js ''pw''))) (js ''file'') (js ''pw'')) \<noteq> []
   \<and> (\<exists>pkg. json_parse (demo_platform (demo_book (js ''1.0'') (js ''pw''))) (js ''file'') = Some pkg
         \<and> get_prop pkg (js ''magic'') = Inr (Some (JStr BACKUP_MAGIC)))"
proof -
  let ?P = "demo_platform [(js ''notes'', demo_other_document)]"
  let ?Q = "demo_platform (demo_book (js ''1.0'') (js ''pw''))"
  have a: "json_parse ?P (js ''garbage'') = None"
    by (simp add: demo_platform_def js_def)
  have b: "json_parse ?P (js ''notes'') = Some demo_other_document"
    by (simp add: demo_platform_def)
  have c: "demo_other_document \<noteq> JNull" by (simp add: demo_other_document_def)
  have d: "get_prop demo_other_document (js ''magic'') \<noteq> Inr (Some (JStr BACKUP_MAGIC))"
    by (simp add: demo_other_document_def BACKUP_MAGIC_def js_def)
  have e: "fst (decryptBackup_run ?Q (js ''file'') (js ''pw'')) \<noteq> []"
    by (simp add: demo_decryptBackup_run)
  from magic_validated_first [of ?P "js ''garbage''" "js ''pw''"]
    magic_validated_first [of ?P "js ''notes''" "js ''pw''"]
    magic_validated_first [of ?Q "js ''file''" "js ''pw''"] a b c d e
  show ?thesis by simp
qed

text \<open>
  The claim as stated fails on the version: a backup file whose version field says 2.0 is not
  refused; the key derivation and the decryption run and the payload is returned.
\<close>

theorem version_not_validated_counterexample:
  "get_prop (demo_envelope (js ''2.0'') (js ''backup123'')) (js ''version'') = Inr (Some (JStr (js ''2.0'')))
   \<and> json_parse (demo_platform (demo_book (js ''2.0'') (js ''backup123''))) (js ''file'')
       = Some (demo_envelope (js ''2.0'') (js ''backup123''))
   \<and> decryptBackup_run (demo_platform (demo_book (js ''2.0'') (js ''backup123''))) (js ''file'')
        (js ''backup123'') = ([ImportKey, DeriveKey, Decrypt], Inr demo_payload)"
  by (simp only: demo_envelope_props demo_parse demo_decryptBackup_run simp_thms)

text \<open>
  Claim C10. Once the outer document has parsed and its magic field matches, decryptBackup
  either returns a value or fails with the wrong-backup-password error: a salt, iv or
  ciphertext field that is not base64, a failed AES-GCM decryption, and decrypted bytes that do
  not parse as JSON are each reported as that one error. The two invalid-format errors arise
  only from a document that does not parse and from a magic field that does not match.
\<close>

theorem backup_decode_errors:
  "(json_parse P doc = Some pkg \<and> get_prop pkg (js ''magic'') = Inr (Some (JStr BACKUP_MAGIC)) \<longrightarrow>
      (decryptBackup P doc password = Inl WrongBackupPassword
         \<or> (\<exists>v. decryptBackup P doc password = Inr v))
    \<and> (\<forall>field e. get_prop pkg (js ''salt'') = Inr field \<and> base64ToArray (ToString_arg P field) = Inl e \<longrightarrow>
          decryptBackup P doc password = Inl WrongBackupPassword)
    \<and> (\<forall>field e. get_prop pkg (js ''iv'') = Inr field \<and> base64ToArray (ToString_arg P field) = Inl e \<longrightarrow>
          decryptBackup P doc password = Inl WrongBackupPassword)
    \<and> (\<forall>field e. get_prop pkg (js ''ciphertext'') = Inr field
                  \<and> base64ToArray (ToString_arg P field) = Inl e \<longrightarrow>
          decryptBackup P doc password = Inl WrongBackupPassword)
    \<and> (\<forall>fs fi fc salt iv ciphertext.
          get_prop pkg (js ''salt'') = Inr fs \<and> base64ToArray (ToString_arg P fs) = Inr salt
          \<and> get_prop pkg (js ''iv'') = Inr fi \<and> base64ToArray (ToString_arg P fi) = Inr iv
          \<and> get_prop pkg (js ''ciphertext'') = Inr fc \<and> base64ToArray (ToString_arg P fc) = Inr ciphertext
          \<longrightarrow>
          (aes_gcm_decrypt P (deriveBackupKey P password salt) iv ciphertext = None \<longrightarrow>
             decryptBackup P doc password = Inl WrongBackupPassword)
          \<and> (\<forall>decrypted. aes_gcm_decrypt P (deriveBackupKey P password salt) iv ciphertext
                            = Some decrypted
                          \<and> json_parse P (TextDecoder_decode decrypted) = None \<longrightarrow>
               decryptBackup P doc password = Inl WrongBackupPassword)))
   \<and> (decryptBackup P doc password = Inl InvalidBackupJSON \<longrightarrow> json_parse P doc = None)
   \<and> (decryptBackup P doc password = Inl NotACipherChatBackup \<longrightarrow>
        (\<exists>pkg'. json_parse P doc = Some pkg'
           \<and> get_prop pkg' (js ''magic'') \<noteq> Inr (Some (JStr BACKUP_MAGIC))))"
proof (intro conjI)
  show "json_parse P doc = Some pkg \<and> get_prop pkg (js ''magic'') = Inr (Some (JStr BACKUP_MAGIC)) \<longrightarrow>
      (decryptBackup P doc password = Inl WrongBackupPassword
         \<or> (\<exists>v. decryptBackup P doc password = Inr v))
    \<and> (\<forall>field e. get_prop pkg (js ''salt'') = Inr field \<and> base64ToArray (ToString_arg P field) = Inl e \<longrightarrow>
          decryptBackup P doc password = Inl WrongBackupPassword)
    \<and> (\<forall>field e. get_prop pkg (js ''iv'') = Inr field \<and> base64ToArray (ToString_arg P field) = Inl e \<longrightarrow>
          decryptBackup P doc password = Inl WrongBackupPassword)
    \<and> (\<forall>field e. get_prop pkg (js ''ciphertext'') = Inr field
                  \<and> base64ToArray (ToString_arg P field) = Inl e \<longrightarrow>
          decryptBackup P doc password = Inl WrongBackupPassword)
    \<and> (\<forall>fs fi fc salt iv ciphertext.
          get_prop pkg (js ''salt'') = Inr fs \<and> base64ToArray (ToString_arg P fs) = Inr salt
          \<and> get_prop pkg (js ''iv'') = Inr fi \<and> base64ToArray (ToString_arg P fi) = Inr iv
          \<and> get_prop pkg (js ''ciphertext'') = Inr fc \<and> base64ToArray (ToString_arg P fc) = Inr ciphertext
          \<longrightarrow>
          (aes_gcm_decrypt P (deriveBackupKey P password salt) iv ciphertext = None \<longrightarrow>
             decryptBackup P doc password = Inl WrongBackupPassword)
          \<and> (\<forall>decrypted. aes_gcm_decrypt P (deriveBackupKey P password salt) iv ciphertext
                            = Some decrypted
                          \<and> json_parse P (TextDecoder_decode decrypted) = None \<longrightarrow>
               decryptBackup P doc password = Inl WrongBackupPassword))"
    by (auto simp add: decryptBackup_def decryptBackup_run_def decryptBackup_try_def Let_def
        split: sum.splits option.splits prod.splits)
next
  show "decryptBackup P doc password = Inl InvalidBackupJSON \<longrightarrow> json_parse P doc = None"
    by (auto simp add: decryptBackup_def decryptBackup_run_def
        split: sum.splits option.splits prod.splits if_splits dest: get_prop_error)
next
  show "decryptBackup P doc password = Inl NotACipherChatBackup \<longrightarrow>
        (\<exists>pkg'. json_parse P doc = Some pkg'
           \<and> get_prop pkg' (js ''magic'') \<noteq> Inr (Some (JStr BACKUP_MAGIC)))"
    by (auto simp add: decryptBackup_def decryptBackup_run_def
        split: sum.splits option.splits prod.splits if_splits dest: get_prop_error)
qed


theorem backup_decode_errors_witness:
  "json_parse (demo_platform (demo_book (js ''1.0'') (js ''backup123''))) (js ''file'')
     = Some (demo_envelope (js ''1.0'') (js ''backup123''))
   \<and> get_prop (demo_envelope (js ''1.0'') (js ''backup123'')) (js ''magic'') = Inr (Some (JStr BACKUP_MAGIC))
   \<and> aes_gcm_decrypt (demo_platform (demo_book (js ''1.0'') (js ''backup123'')))
        (deriveBackupKey (demo_platform (demo_book (js ''1.0'') (js ''backup123''))) (js ''backup124'')
           (draw demo_rng 0 16))
        (draw demo_rng 16 12)
        (demo_aes_encrypt (demo_stretch 32 (TextEncoder_encode (js ''backup123'') @ draw demo_rng 0 16))
           (draw demo_rng 16 12) (TextEncoder_encode (js ''payload''))) = None
   \<and> decryptBackup (demo_platform (demo_book (js ''1.0'') (js ''backup123''))) (js ''file'')
        (js ''backup124'') = Inl WrongBackupPassword"
proof -
  let ?P = "demo_platform (demo_book (js ''1.0'') (js ''backup123''))"
  let ?env = "demo_envelope (js ''1.0'') (js ''backup123'')"
  let ?ct = "demo_aes_encrypt (demo_stretch 32 (TextEncoder_encode (js ''backup123'') @ draw demo_rng 0 16))
           (draw demo_rng 16 12) (TextEncoder_encode (js ''payload''))"
  have keys: "demo_stretch 32 (TextEncoder_encode (js ''backup124'') @ draw demo_rng 0 16)
      \<noteq> demo_stretch 32 (TextEncoder_encode (js ''backup123'') @ draw demo_rng 0 16)"
    by (simp add: demo_stretch_def js_def TextEncoder_encode_def utf8_bytes_def
        is_high_surrogate_def is_low_surrogate_def)
  have rej: "aes_gcm_decrypt ?P (deriveBackupKey ?P (js ''backup124'') (draw demo_rng 0 16))
      (draw demo_rng 16 12) ?ct = None"
    using keys
    by (simp add: demo_deriveBackupKey demo_aes_other_key length_demo_stretch)
       (simp add: demo_platform_def demo_aes_other_key length_demo_stretch)
  have fields: "base64ToArray (ToString_arg ?P (Some (JStr (base64_of (draw demo_rng 0 16)))))
        = Inr (draw demo_rng 0 16)"
    "base64ToArray (ToString_arg ?P (Some (JStr (base64_of (draw demo_rng 16 12)))))
        = Inr (draw demo_rng 16 12)"
    "base64ToArray (ToString_arg ?P (Some (JStr (base64_of ?ct)))) = Inr ?ct"
    by (simp_all add: ToString_arg_def base64_roundtrip)
  from backup_decode_errors [of ?P "js ''file''" ?env "js ''backup124''"]
    demo_parse(2) [of "js ''1.0''" "js ''backup123''"]
    demo_envelope_props(1,3,4,5) [of "js ''1.0''" "js ''backup123''"] fields rej
  have "decryptBackup ?P (js ''file'') (js ''backup124'') = Inl WrongBackupPassword"
    by blast
  with demo_parse(2) [of "js ''1.0''" "js ''backup123''"]
    demo_envelope_props(1) [of "js ''1.0''" "js ''backup123''"] rej
  show ?thesis by simp
qed

section \<open>Failures of unwrapping, as login sees them\<close>

lemma base64ToArray_error: "base64ToArray s = Inl e \<Longrightarrow> e = InvalidCharacterError"
  by (auto simp add: base64ToArray_def atob_def Let_def split: sum.splits option.splits if_splits)

lemma decryptPrivateKey_error:
  "decryptPrivateKey P pkg passphrase = Inl e \<Longrightarrow> e = InvalidCharacterError \<or> e = OperationError"
  by (auto simp add: decryptPrivateKey_def split: sum.splits option.splits
      dest: base64ToArray_error)

text \<open>
  Claim C6. Whatever makes AES-GCM reject inside decryptPrivateKey, a wrong passphrase or a
  changed envelope, decryptPrivateKey fails with the one error OperationError; and for every
  failure of decryptPrivateKey the caller, login, reports the same outcome: no success, the
  message "Login failed", no private key.
\<close>

theorem unwrap_failure_uniform:
  "(\<forall>salt iv ct. base64ToArray (env_salt pkg) = Inr salt \<and> base64ToArray (env_iv pkg) = Inr iv
       \<and> base64ToArray (env_ct pkg) = Inr ct
       \<and> aes_gcm_decrypt P (deriveKey P passphrase salt) iv ct = None \<longrightarrow>
       decryptPrivateKey P pkg passphrase = Inl OperationError)
   \<and> (\<forall>e. decryptPrivateKey P pkg passphrase = Inl e \<longrightarrow>
        login P (Inr \<lparr>lr_encryptedPrivateKey = pkg, lr_token = token\<rparr>) passphrase =
          \<lparr>lo_success = False, lo_message = Some (js ''Login failed''), lo_privateKey = None\<rparr>)"
proof (intro conjI allI impI)
  fix salt iv ct
  assume "base64ToArray (env_salt pkg) = Inr salt \<and> base64ToArray (env_iv pkg) = Inr iv
       \<and> base64ToArray (env_ct pkg) = Inr ct
       \<and> aes_gcm_decrypt P (deriveKey P passphrase salt) iv ct = None"
  then show "decryptPrivateKey P pkg passphrase = Inl OperationError"
    by (simp add: decryptPrivateKey_def)
next
  fix e
  assume e: "decryptPrivateKey P pkg passphrase = Inl e"
  from decryptPrivateKey_error [OF e] e
  show "login P (Inr \<lparr>lr_encryptedPrivateKey = pkg, lr_token = token\<rparr>) passphrase =
          \<lparr>lo_success = False, lo_message = Some (js ''Login failed''), lo_privateKey = None\<rparr>"
    by (auto simp add: login_def)
qed

theorem unwrap_failure_uniform_witness:
  "encryptPrivateKey (demo_platform []) demo_rng (js ''QUJD'') (js ''pw'')
     = Inr (demo_key_envelope, advance 28 demo_rng)
   \<and> decryptPrivateKey (demo_platform []) demo_key_envelope (js ''pW'') = Inl OperationError
   \<and> decryptPrivateKey (demo_platform [])
      (demo_key_envelope\<lparr>env_iv := base64_of (flip_bit_at 0 0 (draw demo_rng 16 12))\<rparr>) (js ''pw'')
     = Inl OperationError
   \<and> login (demo_platform [])
        (Inr \<lparr>lr_encryptedPrivateKey = demo_key_envelope, lr_token = js ''token''\<rparr>) (js ''pW'')
     = \<lparr>lo_success = False, lo_message = Some (js ''Login failed''), lo_privateKey = None\<rparr>
   \<and> login (demo_platform [])
        (Inr \<lparr>lr_encryptedPrivateKey =
                 demo_key_envelope\<lparr>env_iv := base64_of (flip_bit_at 0 0 (draw demo_rng 16 12))\<rparr>,
              lr_token = js ''token''\<rparr>) (js ''pw'')
     = \<lparr>lo_success = False, lo_message = Some (js ''Login failed''), lo_privateKey = None\<rparr>"
proof -
  let ?P = "demo_platform []"
  let ?salt = "draw demo_rng 0 16"
  let ?iv = "draw demo_rng 16 12"
  let ?ct = "aes_gcm_encrypt ?P (deriveKey ?P (js ''pw'') ?salt) ?iv (TextEncoder_encode (js ''QUJD''))"
  let ?env = "demo_key_envelope"
  let ?env' = "?env\<lparr>env_iv := base64_of (flip_bit_at 0 0 ?iv)\<rparr>"
  have env: "?env = \<lparr>env_ct = base64_of ?ct, env_salt = base64_of ?salt,
      env_iv = base64_of ?iv\<rparr>"
    by (simp add: demo_key_envelope_def demo_deriveKey) (simp add: demo_platform_def)
  have fits: "within_argument_limit ?P ?ct"
    by (simp add: demo_within_limit demo_aes_length demo_deriveKey length_demo_stretch length_draw
        length_encode_ascii js_def)
  have made: "encryptPrivateKey ?P demo_rng (js ''QUJD'') (js ''pw'') = Inr (?env, advance 28 demo_rng)"
    unfolding env using fits by (simp add: encryptPrivateKey_eq demo_argument_limit)
  have keys: "deriveKey ?P (js ''pW'') ?salt \<noteq> deriveKey ?P (js ''pw'') ?salt"
    by (simp add: demo_deriveKey demo_stretch_def js_def TextEncoder_encode_def utf8_bytes_def
        is_high_surrogate_def is_low_surrogate_def)
  have rej1: "aes_gcm_decrypt ?P (deriveKey ?P (js ''pW'') ?salt) ?iv ?ct = None"
    using keys
    by (simp add: demo_platform_def demo_aes_other_key deriveKey_def length_demo_stretch)
  have "flip_bit_at 0 0 ?iv \<noteq> ?iv" by (rule flip_first_bit) (simp add: draw_def)
  then have rej2: "aes_gcm_decrypt ?P (deriveKey ?P (js ''pw'') ?salt) (flip_bit_at 0 0 ?iv) ?ct = None"
    by (simp add: demo_platform_def demo_aes_other_iv length_flip_bit)
  have f1: "base64ToArray (env_salt ?env) = Inr ?salt \<and> base64ToArray (env_iv ?env) = Inr ?iv
      \<and> base64ToArray (env_ct ?env) = Inr ?ct"
    by (simp add: env base64_roundtrip)
  have f2: "base64ToArray (env_salt ?env') = Inr ?salt
      \<and> base64ToArray (env_iv ?env') = Inr (flip_bit_at 0 0 ?iv)
      \<and> base64ToArray (env_ct ?env') = Inr ?ct"
    by (simp add: env base64_roundtrip)
  from unwrap_failure_uniform [of ?env ?P "js ''pW''" "js ''token''"] f1 rej1
  have a: "decryptPrivateKey ?P ?env (js ''pW'') = Inl OperationError"
    "login ?P (Inr \<lparr>lr_encryptedPrivateKey = ?env, lr_token = js ''token''\<rparr>) (js ''pW'')
       = \<lparr>lo_success = False, lo_message = Some (js ''Login failed''), lo_privateKey = None\<rparr>"
    by blast+
  from unwrap_failure_uniform [of ?env' ?P "js ''pw''" "js ''token''"] f2 rej2
  have b: "decryptPrivateKey ?P ?env' (js ''pw'') = Inl OperationError"
    "login ?P (Inr \<lparr>lr_encryptedPrivateKey = ?env', lr_token = js ''token''\<rparr>) (js ''pw'')
       = \<lparr>lo_success = False, lo_message = Some (js ''Login failed''), lo_privateKey = None\<rparr>"
    by blast+
  from made a b show ?thesis by (simp only: simp_thms)
qed

section \<open>Key derivation\<close>


section \<open>The key fingerprint\<close>

lemma hex_table:
  assumes "d < 16"
  shows "(of_char (''0123456789ABCDEF'' ! d) :: code_unit) = of_nat (if d < 10 then 48 + d else 55 + d)"
proof -
  from assms have "d = 0 \<or> d = 1 \<or> d = 2 \<or> d = 3 \<or> d = 4 \<or> d = 5 \<or> d = 6 \<or> d = 7 \<or> d = 8
      \<or> d = 9 \<or> d = 10 \<or> d = 11 \<or> d = 12 \<or> d = 13 \<or> d = 14 \<or> d = 15"
    by arith
  then show ?thesis by (elim disjE) simp_all
qed

lemma toUpperCase_hex_digit:
  assumes "d < 16"
  shows "toUpperCase [hex_digit d] = [of_char (''0123456789ABCDEF'' ! d)]"
proof -
  have u: "unat (hex_digit d) = (if d < 10 then 48 + d else 87 + d)"
    unfolding hex_digit_def by (rule unat_code_unit) (use assms in simp)
  have "toUpperCase [hex_digit d] = [of_nat (if d < 10 then 48 + d else 55 + d)]"
    using assms by (simp add: toUpperCase_def u) (simp add: hex_digit_def)
  then show ?thesis by (simp only: hex_table [OF assms])
qed

lemma toUpperCase_append: "toUpperCase (xs @ ys) = toUpperCase xs @ toUpperCase ys"
  by (simp add: toUpperCase_def)

lemma toUpperCase_concat: "toUpperCase (concat xss) = concat (map toUpperCase xss)"
  by (induction xss) (simp_all add: toUpperCase_append, simp add: toUpperCase_def)

lemma toUpperCase_zero: "toUpperCase [48] = [of_char (''0123456789ABCDEF'' ! 0)]"
  by (simp add: toUpperCase_def)

lemma hex_of_byte:
  "toUpperCase (padStart 2 48 (toString16 (unat b))) = hex_upper_byte b" for b :: byte
proof (cases "unat b < 16")
  case True
  then have d: "unat b div 16 = 0" "unat b mod 16 = unat b" by simp_all
  have "toUpperCase (padStart 2 48 (toString16 (unat b))) = toUpperCase ([48] @ [hex_digit (unat b)])"
    using True by (simp add: padStart_def toString16_def)
  also have "\<dots> = [of_char (''0123456789ABCDEF'' ! 0), of_char (''0123456789ABCDEF'' ! unat b)]"
    by (simp only: toUpperCase_append toUpperCase_zero toUpperCase_hex_digit [OF True]) simp
  finally show ?thesis by (simp only: hex_upper_byte_def d)
next
  case False
  have hi: "unat b div 16 < 16" using unat_byte_bound [of b] by (simp add: less_mult_imp_div_less)
  have lo: "unat b mod 16 < 16" by simp
  have "toUpperCase (padStart 2 48 (toString16 (unat b)))
      = toUpperCase ([hex_digit (unat b div 16)] @ [hex_digit (unat b mod 16)])"
    using False by (simp add: padStart_def toString16_def)
  also have "\<dots> = [of_char (''0123456789ABCDEF'' ! (unat b div 16)),
      of_char (''0123456789ABCDEF'' ! (unat b mod 16))]"
    by (simp only: toUpperCase_append toUpperCase_hex_digit [OF hi] toUpperCase_hex_digit [OF lo])
       simp
  finally show ?thesis by (simp only: hex_upper_byte_def)
qed

lemma hex_of_bytes:
  "toUpperCase (concat (map (\<lambda>b. padStart 2 48 (toString16 (unat b))) hash)) =
     concat (map hex_upper_byte hash)"
  by (simp add: toUpperCase_concat comp_def hex_of_byte)

lemma upper_hex_table: "d < 16 \<Longrightarrow> upper_hex (of_char (''0123456789ABCDEF'' ! d))"
proof -
  assume d: "d < 16"
  have "unat (of_nat (if d < 10 then 48 + d else 55 + d) :: code_unit) =
      (if d < 10 then 48 + d else 55 + d)"
    by (rule unat_code_unit) (use d in simp)
  with d show ?thesis by (auto simp add: upper_hex_def hex_table)
qed

lemma hex_upper_byte_chars: "length (hex_upper_byte b) = 2 \<and> (\<forall>u \<in> set (hex_upper_byte b). upper_hex u)"
proof -
  have "unat b div 16 < 16" using unat_byte_bound [of b] by (simp add: less_mult_imp_div_less)
  moreover have "unat b mod 16 < 16" by simp
  ultimately show ?thesis by (simp add: hex_upper_byte_def upper_hex_table)
qed

lemma hex_string_chars:
  "length (concat (map hex_upper_byte hash)) = 2 * length hash
   \<and> (\<forall>u \<in> set (concat (map hex_upper_byte hash)). upper_hex u)"
  by (induction hash) (auto simp add: hex_upper_byte_chars)

lemma upper_hex_not_terminator: "upper_hex u \<Longrightarrow> \<not> line_terminator u"
  by (auto simp add: upper_hex_def line_terminator_def)

lemma match_dot4_blocks4: "\<forall>u \<in> set s. upper_hex u \<Longrightarrow> match_dot4 s = blocks4 s"
  by (induction s rule: blocks4.induct) (simp_all add: upper_hex_not_terminator)

lemma length_blocks4: "length (blocks4 s) = length s div 4"
  by (induction s rule: blocks4.induct) simp_all

lemma concat_blocks4: "length s mod 4 = 0 \<Longrightarrow> concat (blocks4 s) = s"
  by (induction s rule: blocks4.induct) simp_all

lemma set_blocks4: "b \<in> set (blocks4 s) \<Longrightarrow> length b = 4 \<and> set b \<subseteq> set s"
  by (induction s rule: blocks4.induct) auto

text \<open>
  Claim C8. getKeyFingerprint is a function of the key string alone, and for every public key
  that is base64 (every key that arrayToBase64 exported is) it returns a value: the SHA-256
  digest of the decoded key bytes written as 64 uppercase hexadecimal digits, cut into 16 blocks
  of 4 characters that are joined by single spaces.
\<close>

theorem key_fingerprint:
  assumes "sha256_length P" and "base64ToArray pubKeyB64 = Inr bytes"
  shows "getKeyFingerprint P pubKeyB64 = Inr (fingerprint_format (digest P SHA_256 bytes))
       \<and> (\<forall>exported. arrayToBase64 P spki = Inr exported \<longrightarrow>
            getKeyFingerprint P exported = Inr (fingerprint_format (digest P SHA_256 spki)))
       \<and> (\<exists>blocks. fingerprint_format (digest P SHA_256 bytes) = join [32] blocks
            \<and> length blocks = 16
            \<and> (\<forall>b \<in> set blocks. length b = 4 \<and> (\<forall>u \<in> set b. upper_hex u))
            \<and> concat blocks = concat (map hex_upper_byte (digest P SHA_256 bytes)))"
proof -
  have fp: "getKeyFingerprint P k = Inr (fingerprint_format (digest P SHA_256 bs))"
    if "base64ToArray k = Inr bs" for k bs
  proof -
    let ?hex = "concat (map hex_upper_byte (digest P SHA_256 bs))"
    have len: "length ?hex = 64" using assms(1) by (simp add: hex_string_chars sha256_length_def)
    have "match_dot4 ?hex = blocks4 ?hex"
      by (rule match_dot4_blocks4) (simp add: hex_string_chars)
    moreover have "blocks4 ?hex \<noteq> []" using length_blocks4 [of ?hex] len by auto
    ultimately show ?thesis
      using that by (simp add: getKeyFingerprint_def hex_of_bytes fingerprint_format_def Let_def)
  qed
  let ?hex = "concat (map hex_upper_byte (digest P SHA_256 bytes))"
  have len: "length ?hex = 64" using assms(1) by (simp add: hex_string_chars sha256_length_def)
  have chars: "\<forall>u \<in> set ?hex. upper_hex u" by (simp add: hex_string_chars)
  have "fingerprint_format (digest P SHA_256 bytes) = join [32] (blocks4 ?hex)"
    by (simp add: fingerprint_format_def)
  moreover have "length (blocks4 ?hex) = 16" by (simp add: length_blocks4 len)
  moreover have "\<forall>b \<in> set (blocks4 ?hex). length b = 4 \<and> (\<forall>u \<in> set b. upper_hex u)"
    using set_blocks4 [of _ ?hex] chars by blast
  moreover have "concat (blocks4 ?hex) = ?hex" by (rule concat_blocks4) (simp add: len)
  ultimately have "\<exists>blocks. fingerprint_format (digest P SHA_256 bytes) = join [32] blocks
            \<and> length blocks = 16
            \<and> (\<forall>b \<in> set blocks. length b = 4 \<and> (\<forall>u \<in> set b. upper_hex u))
            \<and> concat blocks = ?hex"
    by blast
  moreover have "\<forall>exported. arrayToBase64 P spki = Inr exported \<longrightarrow>
            getKeyFingerprint P exported = Inr (fingerprint_format (digest P SHA_256 spki))"
    by (simp add: arrayToBase64_Inr fp [OF base64_roundtrip])
  ultimately show ?thesis using fp [OF assms(2)] by blast
qed

theorem key_fingerprint_witness:
  "sha256_length (demo_platform [])
   \<and> base64ToArray (base64_of [65, 66, 67]) = Inr [65, 66, 67]
   \<and> arrayToBase64 (demo_platform []) [65, 66, 67] = Inr (base64_of [65, 66, 67])
   \<and> getKeyFingerprint (demo_platform []) (base64_of [65, 66, 67]) =
       Inr (js ''4142 4300 0000 0000 0000 0000 0000 0000 0000 0000 0000 0000 0000 0000 0000 0000'')"
proof -
  have d: "digest (demo_platform []) SHA_256 [65, 66, 67] = [65, 66, 67] @ replicate 29 0"
    by (simp add: demo_platform_def demo_stretch_def)
  have f: "fingerprint_format ([65, 66, 67] @ replicate 29 0) =
      js ''4142 4300 0000 0000 0000 0000 0000 0000 0000 0000 0000 0000 0000 0000 0000 0000''"
    by code_simp
  from key_fingerprint [OF demo_sha256_length base64_roundtrip, of "[]" "[65, 66, 67]" "[]"]
  have "getKeyFingerprint (demo_platform []) (base64_of [65, 66, 67]) =
      Inr (fingerprint_format (digest (demo_platform []) SHA_256 [65, 66, 67]))"
    by blast
  moreover have "arrayToBase64 (demo_platform []) [65, 66, 67] = Inr (base64_of [65, 66, 67])"
    by (simp add: arrayToBase64_eq demo_within_limit)
  ultimately show ?thesis
    using demo_sha256_length [of "[]"] by (simp only: d f base64_roundtrip simp_thms)
qed


end
